theory Spec2Isabelle
  imports Main "HOL-Library.AList"
begin

section \<open>joblib/numpy_pickle.py: persisting object graphs with arrays in side files\<close>

text \<open>
  The module subclasses the pickle engine of the Python 2 standard library: the write
  side overrides \<open>Pickler.save\<close>, the read side overrides \<open>Unpickler.load_build\<close>.
  The engine, \<open>os.path\<close>, the file system and numpy's \<open>save\<close>/\<open>load\<close> are not part of
  the module; they are modelled here at the boundary the module uses, and the text
  before such a definition says what it stands for. The definitions that embed the
  module itself keep its names.
\<close>

subsection \<open>Path names (posixpath) and string formatting\<close>

definition slash :: char where
  "slash = CHR ''/''"

text \<open>\<open>os.path.basename(p)\<close>: \<open>i = p.rfind('/') + 1; return p[i:]\<close>.\<close>

definition os_path_basename :: "string \<Rightarrow> string" where
  "os_path_basename p = rev (takeWhile (\<lambda>c. c \<noteq> slash) (rev p))"

text \<open>\<open>p[:i]\<close> for the same \<open>i\<close>: everything up to and including the last slash.\<close>

definition path_head :: "string \<Rightarrow> string" where
  "path_head p = rev (dropWhile (\<lambda>c. c \<noteq> slash) (rev p))"

definition rstrip_slash :: "string \<Rightarrow> string" where
  "rstrip_slash s = rev (dropWhile (\<lambda>c. c = slash) (rev s))"

text \<open>
  \<open>os.path.dirname(p)\<close>:
  \<open>head = p[:i]; if head and head != '/'*len(head): head = head.rstrip('/'); return head\<close>.
\<close>

definition os_path_dirname :: "string \<Rightarrow> string" where
  "os_path_dirname p =
     (let head = path_head p
      in if head \<noteq> [] \<and> \<not> list_all (\<lambda>c. c = slash) head then rstrip_slash head else head)"

text \<open>
  \<open>os.path.join(a, b)\<close> with two arguments: an absolute \<open>b\<close> replaces \<open>a\<close>; otherwise
  \<open>b\<close> is appended, with a slash in between unless \<open>a\<close> is empty or ends with one.
\<close>

definition os_path_join :: "string \<Rightarrow> string \<Rightarrow> string" where
  "os_path_join a b =
     (if b \<noteq> [] \<and> hd b = slash then b
      else if a = [] \<or> last a = slash then a @ b
      else a @ [slash] @ b)"

text \<open>Decimal digits of a natural number, most significant first.\<close>

fun digits :: "nat \<Rightarrow> string" where
  "digits n =
     (if n < 10 then [''0123456789'' ! n]
      else digits (n div 10) @ [''0123456789'' ! (n mod 10)])"

declare digits.simps [simp del]

text \<open>
  The conversion \<open>'%02i' % i\<close>: decimal, padded with zeros on the left to a width of at
  least two characters, the sign counting towards the width.
\<close>

definition fmt_02i :: "int \<Rightarrow> string" where
  "fmt_02i i =
     (if i < 0 then ''-'' @ digits (nat (- i))
      else if i < 10 then ''0'' @ digits (nat i)
      else digits (nat i))"

text \<open>\<open>'%s_%02i.npy' % (filename, counter)\<close>, the name of a side file.\<close>

definition npy_name :: "string \<Rightarrow> int \<Rightarrow> string" where
  "npy_name filename counter = filename @ ''_'' @ fmt_02i counter @ ''.npy''"

subsection \<open>Arrays, objects and the opcode stream\<close>

text \<open>
  A numpy array is its element type, its shape and its elements. The subclass of an
  array object (matrix, masked array, ...) is not tracked: \<open>isinstance(obj, np.ndarray)\<close>
  holds for all of them.
\<close>

datatype ndarray = NDArray (dtype: string) (shape: "nat list") (elements: "int list")

text \<open>
  Object identity (\<open>id(obj)\<close>): an object belongs to the caller's graph, or it is the
  placeholder that \<open>NumpyPickler.save\<close> creates for the side file with the given counter.
\<close>

datatype oid = Caller nat | Pass int

text \<open>
  The object graphs of the model: \<open>None\<close>, integers, strings, lists, arrays,
  \<open>NDArrayWrapper\<close> instances (with their \<open>filename\<close> attribute) and objects the pickle
  engine rejects. A shared object is a node that occurs several times with the same
  identity; cyclic graphs are not represented.
\<close>

datatype pyobj =
    PNone
  | PInt int
  | PStr string
  | PList oid "pyobj list"
  | PArray oid ndarray
  | PWrapper oid string
  | PUnpicklable

text \<open>
  The opcodes of the main stream, abstracting the engine's protocol 2. \<open>NEWOBJ c\<close> stands
  for \<open>GLOBAL c, EMPTY_TUPLE, NEWOBJ\<close>; \<open>RECONSTRUCT\<close> for the call of
  \<open>numpy.core.multiarray._reconstruct\<close> by \<open>REDUCE\<close>, and \<open>ARRSTATE a\<close> for the state
  tuple of an array pickled inline.
\<close>

datatype opcode =
    PROTO nat
  | NONE
  | BININT int
  | BINSTRING string
  | EMPTY_LIST
  | MARK
  | APPENDS
  | EMPTY_DICT
  | SETITEM
  | NEWOBJ string
  | RECONSTRUCT
  | ARRSTATE ndarray
  | BUILD
  | PUT nat
  | GET nat
  | STOP

subsection \<open>The file system\<close>

datatype fcontent =
    Pickle "opcode list"
  | Npy ndarray
  | Zip "(string \<times> fcontent) list"

text \<open>
  Files are kept under their path with runs of slashes collapsed, as the operating
  system resolves them; \<open>dirs\<close> are the directories created explicitly (temporary
  directories and what is extracted into them); \<open>opened\<close> lists the path of every
  handle that is open.
\<close>

record filesystem =
  files :: "(string \<times> fcontent) list"
  dirs :: "string list"
  opened :: "string list"

fun normslash :: "string \<Rightarrow> string" where
  "normslash (a # b # cs) =
     (if a = slash \<and> b = slash then normslash (b # cs) else a # normslash (b # cs))"
| "normslash cs = cs"

definition fs_read :: "filesystem \<Rightarrow> string \<Rightarrow> fcontent option" where
  "fs_read fs path = map_of (files fs) (normslash path)"

definition fs_write :: "filesystem \<Rightarrow> string \<Rightarrow> fcontent \<Rightarrow> filesystem" where
  "fs_write fs path c = fs\<lparr>files := AList.update (normslash path) c (files fs)\<rparr>"

datatype error =
    IOError string
  | OSError string
  | PicklingError
  | UnpicklingError
  | EOFError
  | IndexError
  | KeyError
  | AttributeError
  | TypeError
  | ValueError

text \<open>
  \<open>open(path, 'wb')\<close>: fails on an empty name, a name that ends with a slash and a
  directory; otherwise the file is created or truncated and a handle is open.
\<close>

definition open_wb :: "filesystem \<Rightarrow> string \<Rightarrow> error + filesystem" where
  "open_wb fs path =
     (if path = [] \<or> last path = slash \<or> normslash path \<in> set (dirs fs)
      then Inl (IOError path)
      else Inr ((fs_write fs path (Pickle []))\<lparr>opened := opened fs @ [path]\<rparr>))"

text \<open>\<open>open(path, 'rb')\<close>: the file has to exist.\<close>

definition open_rb :: "filesystem \<Rightarrow> string \<Rightarrow> error + (fcontent \<times> filesystem)" where
  "open_rb fs path =
     (case fs_read fs path of
        None \<Rightarrow> Inl (IOError path)
      | Some c \<Rightarrow> Inr (c, fs\<lparr>opened := opened fs @ [path]\<rparr>))"

definition close_file :: "filesystem \<Rightarrow> string \<Rightarrow> filesystem" where
  "close_file fs path = fs\<lparr>opened := remove1 path (opened fs)\<rparr>"

subsection \<open>numpy's \<open>save\<close>\<close>

text \<open>
  The numpy module, as far as the write pass depends on it: whether \<open>np.save\<close> succeeds
  for a file name and an array. \<open>np.save(filename, obj)\<close> then writes the file; when it
  fails it raises and the model leaves the file system as it was.
\<close>

record numpy =
  can_save :: "string \<Rightarrow> ndarray \<Rightarrow> bool"

definition np_save :: "numpy \<Rightarrow> filesystem \<Rightarrow> string \<Rightarrow> ndarray \<Rightarrow> error + filesystem" where
  "np_save m fs filename a =
     (if can_save m filename a then Inr (fs_write fs filename (Npy a))
      else Inl (IOError filename))"

subsection \<open>The write pass: \<open>NumpyPickler\<close>\<close>

text \<open>
  The state of a \<open>NumpyPickler\<close>: the attributes that \<open>__init__\<close> sets, the memo of the
  base class (the identities memoized so far, an object's memo number being its
  position), what has been written to \<open>self.file\<close>, and the file system. \<open>p_handles\<close>
  holds the attributes whose value is a file handle, by attribute name, each handle as
  the path it was opened with; the result type carries the state at which an exception
  was raised.
\<close>

record pickler =
  p_filename :: string
  p_filenames :: "string list"
  p_handles :: "(string \<times> string) list"
  npy_counter :: int
  np :: numpy
  memo :: "oid list"
  written :: "opcode list"
  disk :: filesystem

type_synonym presult = "(error \<times> pickler) + pickler"

text \<open>
  \<open>NumpyPickler.__init__\<close>: \<open>self.file = open(filename, 'wb')\<close> may raise; nothing else
  of the constructor does in the model.
\<close>

definition NumpyPickler_init :: "numpy \<Rightarrow> filesystem \<Rightarrow> string \<Rightarrow> error + pickler" where
  "NumpyPickler_init m fs filename =
     (case open_wb fs filename of
        Inl e \<Rightarrow> Inl e
      | Inr fs' \<Rightarrow>
          Inr \<lparr>p_filename = filename, p_filenames = [filename],
               p_handles = [(''file'', filename)], npy_counter = 0, np = m,
               memo = [], written = [], disk = fs'\<rparr>)"

definition Pickler_write :: "pickler \<Rightarrow> opcode list \<Rightarrow> pickler" where
  "Pickler_write st ops = st\<lparr>written := written st @ ops\<rparr>"

text \<open>
  \<open>Pickler.memoize(obj)\<close>:
  \<open>memo_len = len(self.memo); self.write(self.put(memo_len)); self.memo[id(obj)] = memo_len, obj\<close>.
\<close>

definition memoize :: "pickler \<Rightarrow> oid \<Rightarrow> pickler" where
  "memoize st i = (Pickler_write st [PUT (length (memo st))])\<lparr>memo := memo st @ [i]\<rparr>"

fun index_of :: "'a \<Rightarrow> 'a list \<Rightarrow> nat option" where
  "index_of x [] = None"
| "index_of x (y # ys) =
     (if x = y then Some 0 else map_option Suc (index_of x ys))"

fun obj_id :: "pyobj \<Rightarrow> oid option" where
  "obj_id (PList i xs) = Some i"
| "obj_id (PArray i a) = Some i"
| "obj_id (PWrapper i f) = Some i"
| "obj_id obj = None"

text \<open>\<open>self.memo.get(id(obj))\<close>: the memo number of an object already written.\<close>

definition memo_get :: "pickler \<Rightarrow> pyobj \<Rightarrow> nat option" where
  "memo_get st obj = (case obj_id obj of None \<Rightarrow> None | Some i \<Rightarrow> index_of i (memo st))"

fun isinstance_ndarray :: "pyobj \<Rightarrow> bool" where
  "isinstance_ndarray (PArray i a) = True"
| "isinstance_ndarray obj = False"

text \<open>
  The first part of \<open>NumpyPickler.save\<close>, up to the call of the base class: for an
  array, count, name the side file, append the name to \<open>_filenames\<close>, save the array and
  replace \<open>obj\<close> by an \<open>NDArrayWrapper\<close> of the base name; when \<open>np.save\<close> raises, the bare
  \<open>except\<close> takes the count back and \<open>obj\<close> is still the array. (The message printed in
  the handler is not modelled.)
\<close>

fun externalize :: "pickler \<Rightarrow> pyobj \<Rightarrow> pickler \<times> pyobj" where
  "externalize st (PArray i a) =
     (let st1 = st\<lparr>npy_counter := npy_counter st + 1\<rparr>;
          filename = npy_name (p_filename st1) (npy_counter st1);
          st2 = st1\<lparr>p_filenames := p_filenames st1 @ [filename]\<rparr>
      in case np_save (np st2) (disk st2) filename a of
           Inr fs' \<Rightarrow>
             (st2\<lparr>disk := fs'\<rparr>, PWrapper (Pass (npy_counter st2)) (os_path_basename filename))
         | Inl e \<Rightarrow>
             (st2\<lparr>npy_counter := npy_counter st2 - 1\<rparr>, PArray i a))"
| "externalize st obj = (st, obj)"

text \<open>
  A measure for the traversal: a placeholder is not larger than the array it replaces.
\<close>

fun rank :: "pyobj \<Rightarrow> nat" where
  "rank (PList i xs) = Suc (sum_list (map rank xs) + length xs)"
| "rank obj = 0"

lemma rank_externalize: "rank (snd (externalize st obj)) \<le> rank obj"
  by (cases obj) (auto simp: Let_def split: sum.splits)

text \<open>
  \<open>NumpyPickler.save\<close> (the override), \<open>pickle.Pickler.save\<close> (the base class) and the
  base class's loop over the items of a list, which calls \<open>self.save\<close>, the override,
  for each item.

  The base class first looks the object up in the memo and writes a \<open>GET\<close> for an object
  already written. Otherwise it dispatches on the type: atoms are written directly; a
  list is written as \<open>EMPTY_LIST\<close>, memoized, and its items follow in one
  \<open>MARK ... APPENDS\<close> batch (the engine's batches of 1000 and its \<open>APPEND\<close> for a single
  item are not modelled); an object without a dispatch entry goes through
  \<open>save_reduce\<close>: the constructor call, the memo entry, the state and \<open>BUILD\<close>.
  Strings are not memoized in the model.
\<close>

function save :: "pickler \<Rightarrow> pyobj \<Rightarrow> presult"
  and Pickler_save :: "pickler \<Rightarrow> pyobj \<Rightarrow> presult"
  and save_items :: "pickler \<Rightarrow> pyobj list \<Rightarrow> presult"
where
  "save st obj = (case externalize st obj of (st', obj') \<Rightarrow> Pickler_save st' obj')"
| "Pickler_save st obj =
     (case memo_get st obj of
        Some k \<Rightarrow> Inr (Pickler_write st [GET k])
      | None \<Rightarrow>
          (case obj of
             PNone \<Rightarrow> Inr (Pickler_write st [NONE])
           | PInt n \<Rightarrow> Inr (Pickler_write st [BININT n])
           | PStr s \<Rightarrow> Inr (Pickler_write st [BINSTRING s])
           | PList i xs \<Rightarrow>
               (case save_items (Pickler_write (memoize (Pickler_write st [EMPTY_LIST]) i) [MARK]) xs of
                  Inl e \<Rightarrow> Inl e
                | Inr st' \<Rightarrow> Inr (Pickler_write st' [APPENDS]))
           | PArray i a \<Rightarrow>
               Inr (Pickler_write (memoize (Pickler_write st [RECONSTRUCT]) i) [ARRSTATE a, BUILD])
           | PWrapper i f \<Rightarrow>
               Inr (Pickler_write (memoize (Pickler_write st [NEWOBJ ''NDArrayWrapper'']) i)
                      [EMPTY_DICT, BINSTRING ''filename'', BINSTRING f, SETITEM, BUILD])
           | PUnpicklable \<Rightarrow> Inl (PicklingError, st)))"
| "save_items st [] = Inr st"
| "save_items st (x # xs) =
     (case save st x of
        Inl e \<Rightarrow> Inl e
      | Inr st' \<Rightarrow> save_items st' xs)"
  by pat_completeness auto

termination
  by (relation "measure (\<lambda>x. case x of
        Inl (st, obj) \<Rightarrow> 3 * rank obj + 2
      | Inr (Inl (st, obj)) \<Rightarrow> 3 * rank obj + 1
      | Inr (Inr (st, xs)) \<Rightarrow> 3 * (sum_list (map rank xs) + length xs))")
    (auto simp: split_beta less_Suc_eq_le rank_externalize)

text \<open>
  \<open>Pickler.dump(obj)\<close>: \<open>self.write(PROTO + chr(self.proto)); self.save(obj); self.write(STOP)\<close>.
\<close>

definition Pickler_dump :: "pickler \<Rightarrow> pyobj \<Rightarrow> presult" where
  "Pickler_dump st obj =
     (case save (Pickler_write st [PROTO 2]) obj of
        Inl e \<Rightarrow> Inl e
      | Inr st' \<Rightarrow> Inr (Pickler_write st' [STOP]))"

text \<open>
  \<open>dump(value, filename)\<close>. When the constructor raises, \<open>pickler\<close> is not among the
  locals and the \<open>finally\<close> block does nothing. Otherwise the block flushes what was
  written into the file and closes the handle held by the attribute \<open>file\<close>, whether
  \<open>pickler.dump\<close> returned or raised. The result is the value returned or the exception
  raised, and the file system afterwards.
\<close>

definition flush_close :: "pickler \<Rightarrow> filesystem" where
  "flush_close st =
     (case map_of (p_handles st) ''file'' of
        None \<Rightarrow> disk st
      | Some h \<Rightarrow> close_file (fs_write (disk st) h (Pickle (written st))) h)"

definition dump :: "numpy \<Rightarrow> filesystem \<Rightarrow> pyobj \<Rightarrow> string \<Rightarrow> (error + string list) \<times> filesystem" where
  "dump m fs v filename =
     (case NumpyPickler_init m fs filename of
        Inl e \<Rightarrow> (Inl e, fs)
      | Inr pickler \<Rightarrow>
          (case Pickler_dump pickler v of
             Inl (e, st) \<Rightarrow> (Inl e, flush_close st)
           | Inr st \<Rightarrow> (Inr (p_filenames st), flush_close st)))"

subsection \<open>The read pass: \<open>NumpyUnpickler\<close>\<close>

text \<open>
  What the engine keeps on its stack and in its memo: atoms, the mark, the state tuple of
  an inline array, and references to the objects it has created. The objects live in a
  heap, a list indexed by address, because the engine builds them in place: a list is
  memoized when it is still empty, an instance before its state is set.
\<close>

datatype sval =
    SNone
  | SInt int
  | SStr string
  | SMark
  | SArrState ndarray
  | SRef nat

datatype hobj =
    HList "sval list"
  | HDict "(sval \<times> sval) list"
  | HInst string "(sval \<times> sval) list"
  | HArray ndarray
  | HMemmap string string ndarray

text \<open>
  \<open>np.load(path, mmap_mode=mode)\<close>: the file has to exist and hold an array; without a
  mode the result is an array in memory, with a mode it is a memory map of the file.
\<close>

definition np_load :: "filesystem \<Rightarrow> string \<Rightarrow> string option \<Rightarrow> error + hobj" where
  "np_load fs path mode =
     (case fs_read fs path of
        Some (Npy a) \<Rightarrow> Inr (case mode of None \<Rightarrow> HArray a | Some m \<Rightarrow> HMemmap path m a)
      | _ \<Rightarrow> Inl (IOError path))"

text \<open>
  The state of a \<open>NumpyUnpickler\<close>: the attributes of \<open>__init__\<close>, the stream it reads,
  the engine's stack (top first), memo and heap, and the file system. As for the
  pickler, \<open>u_handles\<close> holds the attributes whose value is a file handle; the base class
  \<open>Unpickler.__init__\<close> keeps the handle's \<open>read\<close> and \<open>readline\<close> methods, not the handle.
\<close>

record unpickler =
  u_filename :: string
  u_dirname :: string
  mmap_mode :: "string option"
  u_handles :: "(string \<times> string) list"
  u_stream :: fcontent
  stack :: "sval list"
  u_memo :: "nat \<Rightarrow> sval option"
  heap :: "hobj list"
  u_disk :: filesystem

text \<open>\<open>NumpyUnpickler._open_file(name)\<close>: \<open>os.path.join(self._dirname, name)\<close>.\<close>

definition open_file :: "unpickler \<Rightarrow> string \<Rightarrow> string" where
  "open_file u name = os_path_join (u_dirname u) name"

text \<open>
  \<open>NumpyUnpickler.__init__\<close>: \<open>_open_file\<close> returns a string, so the file is opened with
  \<open>open(file_handle, 'rb')\<close>, which may raise, and the handle is stored in the attribute
  \<open>file_handle\<close>.
\<close>

definition NumpyUnpickler_init ::
    "filesystem \<Rightarrow> string \<Rightarrow> string option \<Rightarrow> error + unpickler" where
  "NumpyUnpickler_init fs filename mode =
     (let fname = os_path_basename filename;
          dname = os_path_dirname filename;
          path = os_path_join dname fname
      in case open_rb fs path of
           Inl e \<Rightarrow> Inl e
         | Inr (c, fs') \<Rightarrow>
             Inr \<lparr>u_filename = fname, u_dirname = dname, mmap_mode = mode,
                  u_handles = [(''file_handle'', path)], u_stream = c,
                  stack = [], u_memo = Map.empty, heap = [], u_disk = fs'\<rparr>)"

definition push :: "unpickler \<Rightarrow> sval \<Rightarrow> unpickler" where
  "push u v = u\<lparr>stack := v # stack u\<rparr>"

text \<open>A new object: it gets the next address and a reference to it is pushed.\<close>

definition alloc :: "unpickler \<Rightarrow> hobj \<Rightarrow> unpickler" where
  "alloc u obj = u\<lparr>stack := SRef (length (heap u)) # stack u, heap := heap u @ [obj]\<rparr>"

fun deref :: "unpickler \<Rightarrow> sval \<Rightarrow> hobj option" where
  "deref u (SRef a) = (if a < length (heap u) then Some (heap u ! a) else None)"
| "deref u v = None"

definition store :: "unpickler \<Rightarrow> sval \<Rightarrow> hobj \<Rightarrow> unpickler" where
  "store u r obj = (case r of SRef a \<Rightarrow> u\<lparr>heap := (heap u)[a := obj]\<rparr> | _ \<Rightarrow> u)"

text \<open>\<open>d.update(state)\<close> on the attribute dictionary of an instance.\<close>

fun dict_update :: "(sval \<times> sval) list \<Rightarrow> (sval \<times> sval) list \<Rightarrow> (sval \<times> sval) list" where
  "dict_update d [] = d"
| "dict_update d ((k, v) # kvs) = dict_update (AList.update k v d) kvs"

text \<open>
  \<open>Unpickler.load_build\<close> of the base class: \<open>state = stack.pop(); inst = stack[-1]\<close>; an
  array has \<open>__setstate__\<close> and takes the state tuple; an instance gets the entries of
  the state dictionary as attributes; an empty state changes nothing.
\<close>

definition Unpickler_load_build :: "unpickler \<Rightarrow> error + unpickler" where
  "Unpickler_load_build u =
     (case stack u of
        [] \<Rightarrow> Inl IndexError
      | [state] \<Rightarrow> Inl IndexError
      | state # inst # rest \<Rightarrow>
          (let u1 = u\<lparr>stack := inst # rest\<rparr>
           in case deref u1 inst of
                Some (HArray a) \<Rightarrow>
                  (case state of
                     SArrState b \<Rightarrow> Inr (store u1 inst (HArray b))
                   | _ \<Rightarrow> Inl TypeError)
              | Some (HMemmap p m a) \<Rightarrow>
                  (case state of
                     SArrState b \<Rightarrow> Inr (store u1 inst (HArray b))
                   | _ \<Rightarrow> Inl TypeError)
              | Some (HInst c attrs) \<Rightarrow>
                  (case state of
                     SNone \<Rightarrow> Inr u1
                   | SRef d \<Rightarrow>
                       (case deref u1 state of
                          Some (HDict kvs) \<Rightarrow> Inr (store u1 inst (HInst c (dict_update attrs kvs)))
                        | _ \<Rightarrow> Inl AttributeError)
                   | _ \<Rightarrow> Inl AttributeError)
              | _ \<Rightarrow> (case state of SNone \<Rightarrow> Inr u1 | _ \<Rightarrow> Inl AttributeError)))"

text \<open>
  \<open>NumpyUnpickler.load_build\<close>, registered for the opcode \<open>BUILD\<close>: after the base
  class has set the state, an \<open>NDArrayWrapper\<close> on top of the stack is popped, the array
  is loaded from the file that its \<open>filename\<close> names (both branches of the version test
  make the same call) and the array is appended to the stack. An exception of \<open>np.load\<close>
  is not caught.
\<close>

definition isinstance_NDArrayWrapper :: "unpickler \<Rightarrow> sval \<Rightarrow> bool" where
  "isinstance_NDArrayWrapper u v =
     (case deref u v of Some (HInst c attrs) \<Rightarrow> c = ''NDArrayWrapper'' | _ \<Rightarrow> False)"

definition wrapper_filename :: "unpickler \<Rightarrow> sval \<Rightarrow> error + string" where
  "wrapper_filename u v =
     (case deref u v of
        Some (HInst c attrs) \<Rightarrow>
          (case map_of attrs (SStr ''filename'') of
             Some (SStr f) \<Rightarrow> Inr f
           | _ \<Rightarrow> Inl AttributeError)
      | _ \<Rightarrow> Inl AttributeError)"

definition load_build :: "unpickler \<Rightarrow> error + unpickler" where
  "load_build u =
     (case Unpickler_load_build u of
        Inl e \<Rightarrow> Inl e
      | Inr u1 \<Rightarrow>
          (case stack u1 of
             [] \<Rightarrow> Inl IndexError
           | v # rest \<Rightarrow>
               if isinstance_NDArrayWrapper u1 v then
                 (let nd_array_wrapper = v;
                      u2 = u1\<lparr>stack := rest\<rparr>
                  in case wrapper_filename u2 nd_array_wrapper of
                       Inl e \<Rightarrow> Inl e
                     | Inr f \<Rightarrow>
                         (case np_load (u_disk u2) (open_file u2 f) (mmap_mode u2) of
                            Inl e \<Rightarrow> Inl e
                          | Inr array \<Rightarrow> Inr (alloc u2 array)))
               else Inr u1))"

text \<open>The other opcodes, as the engine's dispatch table executes them.\<close>

definition load_appends :: "unpickler \<Rightarrow> error + unpickler" where
  "load_appends u =
     (let items = takeWhile (\<lambda>v. v \<noteq> SMark) (stack u)
      in case dropWhile (\<lambda>v. v \<noteq> SMark) (stack u) of
           m # lst # rest \<Rightarrow>
             (case deref u lst of
                Some (HList xs) \<Rightarrow>
                  Inr (store (u\<lparr>stack := lst # rest\<rparr>) lst (HList (xs @ rev items)))
              | _ \<Rightarrow> Inl AttributeError)
         | _ \<Rightarrow> Inl IndexError)"

definition load_setitem :: "unpickler \<Rightarrow> error + unpickler" where
  "load_setitem u =
     (case stack u of
        v # k # d # rest \<Rightarrow>
          (case deref u d of
             Some (HDict kvs) \<Rightarrow>
               Inr (store (u\<lparr>stack := d # rest\<rparr>) d (HDict (AList.update k v kvs)))
           | _ \<Rightarrow> Inl TypeError)
      | _ \<Rightarrow> Inl IndexError)"

fun dispatch :: "unpickler \<Rightarrow> opcode \<Rightarrow> error + unpickler" where
  "dispatch u (PROTO n) = (if n \<le> 2 then Inr u else Inl ValueError)"
| "dispatch u NONE = Inr (push u SNone)"
| "dispatch u (BININT n) = Inr (push u (SInt n))"
| "dispatch u (BINSTRING s) = Inr (push u (SStr s))"
| "dispatch u EMPTY_LIST = Inr (alloc u (HList []))"
| "dispatch u MARK = Inr (push u SMark)"
| "dispatch u APPENDS = load_appends u"
| "dispatch u EMPTY_DICT = Inr (alloc u (HDict []))"
| "dispatch u SETITEM = load_setitem u"
| "dispatch u (NEWOBJ c) = Inr (alloc u (HInst c []))"
| "dispatch u RECONSTRUCT = Inr (alloc u (HArray (NDArray ''b'' [0] [])))"
| "dispatch u (ARRSTATE a) = Inr (push u (SArrState a))"
| "dispatch u BUILD = load_build u"
| "dispatch u (PUT k) =
     (case stack u of [] \<Rightarrow> Inl IndexError | v # rest \<Rightarrow> Inr (u\<lparr>u_memo := (u_memo u)(k \<mapsto> v)\<rparr>))"
| "dispatch u (GET k) =
     (case u_memo u k of None \<Rightarrow> Inl KeyError | Some v \<Rightarrow> Inr (push u v))"
| "dispatch u STOP = Inr u"

text \<open>
  The loop of \<open>Unpickler.load\<close>: read an opcode and dispatch, until \<open>STOP\<close> pops the
  result; the end of the stream before \<open>STOP\<close> raises \<open>EOFError\<close>. The result is a
  reference into the heap, so both are returned.
\<close>

type_synonym loaded = "hobj list \<times> sval"

fun run :: "unpickler \<Rightarrow> opcode list \<Rightarrow> error + loaded" where
  "run u [] = Inl EOFError"
| "run u (opc # ops) =
     (if opc = STOP then
        (case stack u of [] \<Rightarrow> Inl IndexError | v # rest \<Rightarrow> Inr (heap u, v))
      else
        (case dispatch u opc of
           Inl e \<Rightarrow> Inl e
         | Inr u' \<Rightarrow> run u' ops))"

definition Unpickler_load :: "unpickler \<Rightarrow> error + loaded" where
  "Unpickler_load u =
     (case u_stream u of
        Pickle ops \<Rightarrow> run (u\<lparr>stack := []\<rparr>) ops
      | _ \<Rightarrow> Inl UnpicklingError)"

text \<open>
  \<open>load(filename, mmap_mode)\<close>. When the constructor raises, \<open>unpickler\<close> is not among
  the locals. Otherwise the \<open>finally\<close> block closes the handle held by the attribute
  \<open>file\<close> if the unpickler has such an attribute. The read pass leaves the attributes
  of the unpickler and the file system as the constructor left them.
\<close>

definition load ::
    "filesystem \<Rightarrow> string \<Rightarrow> string option \<Rightarrow> (error + loaded) \<times> filesystem" where
  "load fs filename mode =
     (case NumpyUnpickler_init fs filename mode of
        Inl e \<Rightarrow> (Inl e, fs)
      | Inr unpickler \<Rightarrow>
          (Unpickler_load unpickler,
           (case map_of (u_handles unpickler) ''file'' of
              None \<Rightarrow> u_disk unpickler
            | Some h \<Rightarrow> close_file (u_disk unpickler) h)))"

text \<open>
  Value equality of a loaded object with an object graph (Python's \<open>==\<close>): the same
  atoms, lists with equal items, arrays in memory with the same element type, shape and
  elements; object identity is not compared.
\<close>

fun represents :: "hobj list \<Rightarrow> sval \<Rightarrow> pyobj \<Rightarrow> bool" where
  "represents h SNone PNone = True"
| "represents h (SInt n) (PInt m) = (n = m)"
| "represents h (SStr s) (PStr t) = (s = t)"
| "represents h (SRef a) (PList i xs) =
     (a < length h \<and> (case h ! a of HList rs \<Rightarrow> list_all2 (represents h) rs xs | _ \<Rightarrow> False))"
| "represents h (SRef a) (PArray i b) = (a < length h \<and> h ! a = HArray b)"
| "represents h (SRef a) (PWrapper i f) =
     (a < length h \<and> h ! a = HInst ''NDArrayWrapper'' [(SStr ''filename'', SStr f)])"
| "represents h r v = False"

subsection \<open>The archive: \<open>dumpz\<close> and \<open>loadz\<close>\<close>

text \<open>
  The \<open>zipfile\<close> module, as far as the two functions depend on it: whether writing an
  entry and whether extracting an entry succeeds. An archive is the list of its entries,
  archive name and content.
\<close>

record zipfile =
  can_write :: "string \<Rightarrow> bool"
  can_extract :: "string \<Rightarrow> bool"

type_synonym fresult = "(error \<times> filesystem) + filesystem"

text \<open>\<open>zipfile.ZipFile(filename, mode='w')\<close> creates the archive and keeps it open.\<close>

definition ZipFile_w :: "filesystem \<Rightarrow> string \<Rightarrow> error + filesystem" where
  "ZipFile_w fs filename =
     (if filename = [] \<or> last filename = slash \<or> normslash filename \<in> set (dirs fs)
      then Inl (IOError filename)
      else Inr ((fs_write fs filename (Zip []))\<lparr>opened := opened fs @ [filename]\<rparr>))"

text \<open>\<open>zipfile.ZipFile(filename, mode='r')\<close>: the file has to be an archive.\<close>

definition ZipFile_r :: "filesystem \<Rightarrow> string \<Rightarrow> error + filesystem" where
  "ZipFile_r fs filename =
     (case fs_read fs filename of
        Some (Zip es) \<Rightarrow> Inr (fs\<lparr>opened := opened fs @ [filename]\<rparr>)
      | _ \<Rightarrow> Inl (IOError filename))"

text \<open>
  A path (with runs of slashes collapsed) lies within a directory when it continues the
  directory's path after a slash.
\<close>

definition within :: "string \<Rightarrow> string \<Rightarrow> bool" where
  "within d p =
     (let pre = normslash (d @ [slash])
      in take (length pre) p = pre \<and> length pre < length p)"

text \<open>
  \<open>tempfile.mkdtemp(prefix=prefix, dir=dir)\<close> makes a directory
  \<open>os.path.join(dir, prefix + name)\<close> for a name chosen at random. The name is a
  parameter of the model; a candidate that exists already counts as the failure of
  \<open>mkdtemp\<close> (which gives up after a number of candidates).
\<close>

definition mkdtemp :: "filesystem \<Rightarrow> string \<Rightarrow> string \<Rightarrow> string \<Rightarrow> error + (string \<times> filesystem)" where
  "mkdtemp fs name prefix dir =
     (let d = os_path_join dir (prefix @ name)
      in if normslash d \<in> set (dirs fs) \<or> fs_read fs d \<noteq> None
         then Inl (OSError d)
         else Inr (d, fs\<lparr>dirs := dirs fs @ [normslash d]\<rparr>))"

text \<open>\<open>shutil.rmtree(d)\<close>: the directory goes, with everything within it.\<close>

definition rmtree :: "filesystem \<Rightarrow> string \<Rightarrow> filesystem" where
  "rmtree fs d =
     fs\<lparr>files := filter (\<lambda>(p, c). \<not> within d p) (files fs),
        dirs := filter (\<lambda>p. p \<noteq> normslash d \<and> \<not> within d p) (dirs fs)\<rparr>"

text \<open>\<open>os.listdir(d)\<close>: the names of the files and directories directly in \<open>d\<close>.\<close>

definition listdir :: "filesystem \<Rightarrow> string \<Rightarrow> string list" where
  "listdir fs d =
     (let n = length (normslash (d @ [slash]))
      in filter (\<lambda>name. slash \<notin> set name)
           (map (drop n) (filter (within d) (map fst (files fs) @ dirs fs))))"

text \<open>
  \<open>dump_file.write(path, arcname=arcname)\<close> appends the content of the file at \<open>path\<close>
  to the archive under the name \<open>arcname\<close>.
\<close>

definition zip_write :: "zipfile \<Rightarrow> filesystem \<Rightarrow> string \<Rightarrow> string \<Rightarrow> string \<Rightarrow> fresult" where
  "zip_write z fs zipname path arcname =
     (if \<not> can_write z arcname then Inl (IOError arcname, fs)
      else case fs_read fs path of
             None \<Rightarrow> Inl (IOError path, fs)
           | Some c \<Rightarrow>
               (case fs_read fs zipname of
                  Some (Zip es) \<Rightarrow> Inr (fs_write fs zipname (Zip (es @ [(arcname, c)])))
                | _ \<Rightarrow> Inl (IOError zipname, fs)))"

text \<open>
  The loop of \<open>dumpz\<close> over \<open>os.listdir(tmp_dir)\<close>, each file written under the archive
  name \<open>os.path.join('dump_file', sub_file)\<close>.
\<close>

fun write_all :: "zipfile \<Rightarrow> filesystem \<Rightarrow> string \<Rightarrow> string \<Rightarrow> string list \<Rightarrow> fresult" where
  "write_all z fs zipname tmp_dir [] = Inr fs"
| "write_all z fs zipname tmp_dir (sub_file # rest) =
     (case zip_write z fs zipname (os_path_join tmp_dir sub_file)
             (os_path_join ''dump_file'' sub_file) of
        Inl e \<Rightarrow> Inl e
      | Inr fs' \<Rightarrow> write_all z fs' zipname tmp_dir rest)"

text \<open>
  \<open>dumpz(value, filename)\<close>: the archive is created, then the temporary directory; the
  \<open>try\<close> block stages the dump and writes every staged file into the archive, and the
  \<open>finally\<close> block removes the temporary directory, whether the block returned or
  raised. The result of \<open>dump\<close> is not used.
\<close>

definition dumpz ::
    "numpy \<Rightarrow> zipfile \<Rightarrow> string \<Rightarrow> filesystem \<Rightarrow> pyobj \<Rightarrow> string \<Rightarrow> (error + string list) \<times> filesystem" where
  "dumpz m z name fs v filename =
     (case ZipFile_w fs filename of
        Inl e \<Rightarrow> (Inl e, fs)
      | Inr fs1 \<Rightarrow>
          (case mkdtemp fs1 name ''joblib-'' (os_path_dirname filename) of
             Inl e \<Rightarrow> (Inl e, fs1)
           | Inr (tmp_dir, fs2) \<Rightarrow>
               (case dump m fs2 v (os_path_join tmp_dir ''joblib_dump.pkl'') of
                  (Inl e, fs3) \<Rightarrow> (Inl e, rmtree fs3 tmp_dir)
                | (Inr manifest, fs3) \<Rightarrow>
                    (case write_all z fs3 filename tmp_dir (listdir fs3 tmp_dir) of
                       Inl (e, fs4) \<Rightarrow> (Inl e, rmtree fs4 tmp_dir)
                     | Inr fs4 \<Rightarrow> (Inr [filename], close_file (rmtree fs4 tmp_dir) filename)))))"

text \<open>
  \<open>dump_file.extractall(path=tmp_dir)\<close>: every entry is written below the directory,
  a leading slash of its name dropped, and the directory of the target is created.
\<close>

definition extract_member :: "zipfile \<Rightarrow> filesystem \<Rightarrow> string \<Rightarrow> string \<times> fcontent \<Rightarrow> fresult" where
  "extract_member z fs tmp_dir entry =
     (case entry of (arcname, c) \<Rightarrow>
        if \<not> can_extract z arcname then Inl (IOError arcname, fs)
        else
          (let target = os_path_join tmp_dir
                 (if arcname \<noteq> [] \<and> hd arcname = slash then tl arcname else arcname);
               upperdirs = normslash (os_path_dirname target)
           in Inr ((fs_write fs target c)\<lparr>dirs :=
                 (if upperdirs \<in> set (dirs fs) then dirs fs else dirs fs @ [upperdirs])\<rparr>)))"

fun extract_members :: "zipfile \<Rightarrow> filesystem \<Rightarrow> string \<Rightarrow> (string \<times> fcontent) list \<Rightarrow> fresult" where
  "extract_members z fs tmp_dir [] = Inr fs"
| "extract_members z fs tmp_dir (entry # rest) =
     (case extract_member z fs tmp_dir entry of
        Inl e \<Rightarrow> Inl e
      | Inr fs' \<Rightarrow> extract_members z fs' tmp_dir rest)"

definition extractall :: "zipfile \<Rightarrow> filesystem \<Rightarrow> string \<Rightarrow> string \<Rightarrow> fresult" where
  "extractall z fs zipname tmp_dir =
     (case fs_read fs zipname of
        Some (Zip es) \<Rightarrow> extract_members z fs tmp_dir es
      | _ \<Rightarrow> Inl (IOError zipname, fs))"

text \<open>
  \<open>loadz(filename)\<close>: the archive is opened, then the temporary directory is created;
  the \<open>try\<close> block extracts the archive and loads
  \<open>os.path.join(tmp_dir, 'dump_file', 'joblib_dump.pkl')\<close>, and the \<open>finally\<close> block
  removes the temporary directory.
\<close>

definition loadz ::
    "zipfile \<Rightarrow> string \<Rightarrow> filesystem \<Rightarrow> string \<Rightarrow> (error + loaded) \<times> filesystem" where
  "loadz z name fs filename =
     (case ZipFile_r fs filename of
        Inl e \<Rightarrow> (Inl e, fs)
      | Inr fs1 \<Rightarrow>
          (case mkdtemp fs1 name ''joblib-'' (os_path_dirname filename) of
             Inl e \<Rightarrow> (Inl e, fs1)
           | Inr (tmp_dir, fs2) \<Rightarrow>
               (case extractall z fs2 filename tmp_dir of
                  Inl (e, fs3) \<Rightarrow> (Inl e, rmtree fs3 tmp_dir)
                | Inr fs3 \<Rightarrow>
                    (case load fs3
                            (os_path_join (os_path_join tmp_dir ''dump_file'') ''joblib_dump.pkl'')
                            None of
                       (Inl e, fs4) \<Rightarrow> (Inl e, rmtree fs4 tmp_dir)
                     | (Inr output, fs4) \<Rightarrow>
                         (Inr output, close_file (rmtree fs4 tmp_dir) filename)))))"

subsection \<open>Concrete states used as examples\<close>

text \<open>
  An unpickler about to execute \<open>BUILD\<close> for a placeholder: the state dictionary on
  top, the new \<open>NDArrayWrapper\<close> instance below it, and the side file on disk.
\<close>

definition ex_build_before :: unpickler where
  "ex_build_before =
     \<lparr>u_filename = ''x.pkl'', u_dirname = ''d'', mmap_mode = None,
      u_handles = [(''file_handle'', ''d/x.pkl'')], u_stream = Pickle [],
      stack = [SRef 1, SRef 0, SInt 7], u_memo = Map.empty,
      heap = [HInst ''NDArrayWrapper'' [], HDict [(SStr ''filename'', SStr ''x.pkl_01.npy'')]],
      u_disk = \<lparr>files = [(''d/x.pkl_01.npy'', Npy (NDArray ''int64'' [2] [4, 5]))],
                 dirs = [], opened = [''d/x.pkl'']\<rparr>\<rparr>"

definition ex_build_base :: unpickler where
  "ex_build_base =
     ex_build_before\<lparr>stack := [SRef 0, SInt 7],
       heap := [HInst ''NDArrayWrapper'' [(SStr ''filename'', SStr ''x.pkl_01.npy'')],
                HDict [(SStr ''filename'', SStr ''x.pkl_01.npy'')]]\<rparr>"

definition ex_build_after :: unpickler where
  "ex_build_after =
     ex_build_base\<lparr>stack := [SRef 2, SInt 7],
       heap := [HInst ''NDArrayWrapper'' [(SStr ''filename'', SStr ''x.pkl_01.npy'')],
                HDict [(SStr ''filename'', SStr ''x.pkl_01.npy'')],
                HArray (NDArray ''int64'' [2] [4, 5])]\<rparr>"

text \<open>
  Arrays, an empty file system, numpy modules whose \<open>save\<close> always succeeds, fails for
  the array \<open>ex_array\<close>, or always fails, and graphs with what a pass writes for them.
\<close>

definition ex_array :: ndarray where
  "ex_array = NDArray ''int64'' [3] [1, 2, 3]"

definition ex_array2 :: ndarray where
  "ex_array2 = NDArray ''float64'' [1] [7]"

definition ex_fs0 :: filesystem where
  "ex_fs0 = \<lparr>files = [], dirs = [], opened = []\<rparr>"

definition np_ok :: numpy where
  "np_ok = \<lparr>can_save = (\<lambda>f a. True)\<rparr>"

definition np_fail_first :: numpy where
  "np_fail_first = \<lparr>can_save = (\<lambda>f a. a \<noteq> ex_array)\<rparr>"

definition ex_two :: pyobj where
  "ex_two = PList (Caller 0) [PArray (Caller 1) ex_array, PArray (Caller 2) ex_array2]"

definition ex_two_stream :: "opcode list" where
  "ex_two_stream =
     [PROTO 2, EMPTY_LIST, PUT 0, MARK, RECONSTRUCT, PUT 1, ARRSTATE ex_array, BUILD,
      NEWOBJ ''NDArrayWrapper'', PUT 2, EMPTY_DICT, BINSTRING ''filename'',
      BINSTRING ''x.pkl_01.npy'', SETITEM, BUILD, APPENDS, STOP]"

definition ex_two_fs :: filesystem where
  "ex_two_fs =
     \<lparr>files = [(''d/x.pkl'', Pickle ex_two_stream), (''d/x.pkl_01.npy'', Npy ex_array2)],
      dirs = [], opened = []\<rparr>"

definition ex_shared :: pyobj where
  "ex_shared = PList (Caller 0) [PArray (Caller 1) ex_array, PArray (Caller 1) ex_array]"

definition np_fail :: numpy where
  "np_fail = \<lparr>can_save = (\<lambda>f a. False)\<rparr>"

text \<open>A pickler in the middle of a pass that has written the array \<open>Caller 1\<close> inline.\<close>

definition ex_pickler :: pickler where
  "ex_pickler =
     \<lparr>p_filename = ''d/x.pkl'', p_filenames = [''d/x.pkl'', ''d/x.pkl_01.npy''],
      p_handles = [(''file'', ''d/x.pkl'')], npy_counter = 0, np = np_ok,
      memo = [Caller 0, Caller 1],
      written = [PROTO 2, EMPTY_LIST, PUT 0, MARK, RECONSTRUCT, PUT 1, ARRSTATE ex_array, BUILD],
      disk = \<lparr>files = [(''d/x.pkl'', Pickle [])], dirs = [], opened = [''d/x.pkl'']\<rparr>\<rparr>"

definition ex_pickler_fail :: pickler where
  "ex_pickler_fail = ex_pickler\<lparr>np := np_fail\<rparr>"

definition ex_shared_stream :: "opcode list" where
  "ex_shared_stream =
     [PROTO 2, EMPTY_LIST, PUT 0, MARK,
      NEWOBJ ''NDArrayWrapper'', PUT 1, EMPTY_DICT, BINSTRING ''filename'',
      BINSTRING ''x.pkl_01.npy'', SETITEM, BUILD,
      NEWOBJ ''NDArrayWrapper'', PUT 2, EMPTY_DICT, BINSTRING ''filename'',
      BINSTRING ''x.pkl_02.npy'', SETITEM, BUILD, APPENDS, STOP]"

definition ex_shared_fs :: filesystem where
  "ex_shared_fs =
     \<lparr>files = [(''d/x.pkl'', Pickle ex_shared_stream), (''d/x.pkl_01.npy'', Npy ex_array),
               (''d/x.pkl_02.npy'', Npy ex_array)],
      dirs = [], opened = []\<rparr>"

definition ex_shared_heap :: "hobj list" where
  "ex_shared_heap =
     [HList [SRef 3, SRef 6],
      HInst ''NDArrayWrapper'' [(SStr ''filename'', SStr ''x.pkl_01.npy'')],
      HDict [(SStr ''filename'', SStr ''x.pkl_01.npy'')],
      HArray ex_array,
      HInst ''NDArrayWrapper'' [(SStr ''filename'', SStr ''x.pkl_02.npy'')],
      HDict [(SStr ''filename'', SStr ''x.pkl_02.npy'')],
      HArray ex_array]"

definition ex_inline_stream :: "opcode list" where
  "ex_inline_stream =
     [PROTO 2, EMPTY_LIST, PUT 0, MARK, RECONSTRUCT, PUT 1, ARRSTATE ex_array, BUILD,
      GET 1, APPENDS, STOP]"

definition ex_inline_fs :: filesystem where
  "ex_inline_fs = \<lparr>files = [(''d/x.pkl'', Pickle ex_inline_stream)], dirs = [], opened = []\<rparr>"

definition ex_alias :: pyobj where
  "ex_alias = PList (Caller 0) [PArray (Caller 1) ex_array, PWrapper (Caller 2) ''x.pkl_01.npy'']"

definition ex_alias_fs :: filesystem where
  "ex_alias_fs =
     \<lparr>files =
        [(''d/x.pkl'',
          Pickle [PROTO 2, EMPTY_LIST, PUT 0, MARK,
                  NEWOBJ ''NDArrayWrapper'', PUT 1, EMPTY_DICT, BINSTRING ''filename'',
                  BINSTRING ''x.pkl_01.npy'', SETITEM, BUILD,
                  NEWOBJ ''NDArrayWrapper'', PUT 2, EMPTY_DICT, BINSTRING ''filename'',
                  BINSTRING ''x.pkl_01.npy'', SETITEM, BUILD, APPENDS, STOP]),
         (''d/x.pkl_01.npy'', Npy ex_array)],
      dirs = [], opened = []\<rparr>"

definition ex_alias_heap :: "hobj list" where
  "ex_alias_heap =
     [HList [SRef 3, SRef 6],
      HInst ''NDArrayWrapper'' [(SStr ''filename'', SStr ''x.pkl_01.npy'')],
      HDict [(SStr ''filename'', SStr ''x.pkl_01.npy'')],
      HArray ex_array,
      HInst ''NDArrayWrapper'' [(SStr ''filename'', SStr ''x.pkl_01.npy'')],
      HDict [(SStr ''filename'', SStr ''x.pkl_01.npy'')],
      HArray ex_array]"

text \<open>The files written for \<open>ex_two\<close>, moved to the directory \<open>e\<close>.\<close>

definition ex_two_moved :: filesystem where
  "ex_two_moved =
     \<lparr>files = [(''e/x.pkl'', Pickle ex_two_stream), (''e/x.pkl_01.npy'', Npy ex_array2)],
      dirs = [], opened = []\<rparr>"

text \<open>The files written for \<open>ex_two\<close>, without the side file.\<close>

definition ex_two_lost :: filesystem where
  "ex_two_lost = \<lparr>files = [(''d/x.pkl'', Pickle ex_two_stream)], dirs = [], opened = []\<rparr>"

definition ex_bad :: pyobj where
  "ex_bad = PList (Caller 0) [PArray (Caller 1) ex_array, PUnpicklable]"

definition zip_ok :: zipfile where
  "zip_ok = \<lparr>can_write = (\<lambda>f. True), can_extract = (\<lambda>f. True)\<rparr>"

definition zip_no_extract :: zipfile where
  "zip_no_extract =
     \<lparr>can_write = (\<lambda>f. True), can_extract = (\<lambda>f. f = ''dump_file/joblib_dump.pkl'')\<rparr>"

text \<open>The file system after \<open>dumpz\<close> has created the archive, and the temporary directory.\<close>

definition ex_zip1 :: filesystem where
  "ex_zip1 = \<lparr>files = [(''d/x.zip'', Zip [])], dirs = [], opened = [''d/x.zip'']\<rparr>"

definition ex_zip2 :: filesystem where
  "ex_zip2 = ex_zip1\<lparr>dirs := [''d/joblib-abc'']\<rparr>"

text \<open>An archive, opened by \<open>loadz\<close>, and with the temporary directory.\<close>

definition ex_arch :: filesystem where
  "ex_arch =
     \<lparr>files = [(''d/x.zip'',
                Zip [(''dump_file/joblib_dump.pkl'', Pickle ex_shared_stream),
                     (''dump_file/x.pkl_01.npy'', Npy ex_array),
                     (''dump_file/x.pkl_02.npy'', Npy ex_array)])],
      dirs = [], opened = []\<rparr>"

definition ex_arch1 :: filesystem where
  "ex_arch1 = ex_arch\<lparr>opened := [''d/x.zip'']\<rparr>"

definition ex_arch2 :: filesystem where
  "ex_arch2 = ex_arch1\<lparr>dirs := [''d/joblib-xyz'']\<rparr>"

subsection \<open>Auxiliary definitions for the proofs\<close>

text \<open>Reading a formatted number back, to show that the formatting is injective.\<close>

definition digit_val :: "char \<Rightarrow> nat" where
  "digit_val c = (case index_of c ''0123456789'' of Some k \<Rightarrow> k | None \<Rightarrow> 0)"

definition undigits :: "string \<Rightarrow> nat" where
  "undigits s = foldl (\<lambda>acc c. 10 * acc + digit_val c) 0 s"

definition unfmt :: "string \<Rightarrow> int" where
  "unfmt s = (if s \<noteq> [] \<and> hd s = CHR ''-'' then - int (undigits (tl s)) else int (undigits s))"

text \<open>What \<open>npy_name\<close> appends to the name of the main stream.\<close>

definition npy_suffix :: "int \<Rightarrow> string" where
  "npy_suffix c = ''_'' @ fmt_02i c @ ''.npy''"

text \<open>The state in which a step of the write pass ends, normally or with an exception.\<close>

definition final :: "presult \<Rightarrow> pickler" where
  "final r = (case r of Inl (e, st) \<Rightarrow> st | Inr st \<Rightarrow> st)"

text \<open>
  What a stretch of the write pass from \<open>st\<close> to \<open>st'\<close> may change: it appends to the
  stream (never \<open>STOP\<close>) and to the memo, the counter does not go down, and in the file
  system only the side files of the counters passed are written, each with an array.
\<close>

definition pframe :: "pickler \<Rightarrow> pickler \<Rightarrow> bool" where
  "pframe st st' \<longleftrightarrow>
     p_filename st' = p_filename st \<and> np st' = np st \<and> p_handles st' = p_handles st \<and>
     (\<exists>code. written st' = written st @ code \<and> STOP \<notin> set code) \<and>
     (\<exists>new. memo st' = memo st @ new) \<and>
     npy_counter st \<le> npy_counter st' \<and>
     dirs (disk st') = dirs (disk st) \<and> opened (disk st') = opened (disk st) \<and>
     (\<forall>q. (\<forall>c. npy_counter st < c \<and> c \<le> npy_counter st' \<longrightarrow> q \<noteq> normslash (npy_name (p_filename st) c))
          \<longrightarrow> map_of (files (disk st')) q = map_of (files (disk st)) q) \<and>
     (\<forall>c. npy_counter st < c \<and> c \<le> npy_counter st'
          \<longrightarrow> (\<exists>a. fs_read (disk st') (npy_name (p_filename st) c) = Some (Npy a)))"

text \<open>
  Graphs of the caller's own objects that contain no \<open>NDArrayWrapper\<close> instance.
\<close>

fun is_caller :: "oid \<Rightarrow> bool" where
  "is_caller (Caller n) = True"
| "is_caller (Pass c) = False"

fun plain :: "pyobj \<Rightarrow> bool" where
  "plain (PList i xs) = (is_caller i \<and> list_all plain xs)"
| "plain (PArray i a) = is_caller i"
| "plain (PWrapper i f) = False"
| "plain obj = True"

text \<open>The number of placeholders in a stream.\<close>

definition placeholders :: "opcode list \<Rightarrow> nat" where
  "placeholders ops = count_list ops (NEWOBJ ''NDArrayWrapper'')"

text \<open>
  The counter minus the placeholders written so far; and what makes the identity of a
  new placeholder new: the memo holds no placeholder of a later counter.
\<close>

definition balance :: "pickler \<Rightarrow> int" where
  "balance st = npy_counter st - int (placeholders (written st))"

definition pinv :: "pickler \<Rightarrow> bool" where
  "pinv st \<longleftrightarrow> (\<forall>k. Pass k \<in> set (memo st) \<longrightarrow> k \<le> npy_counter st)"

text \<open>Graphs without an object that the pickle engine rejects.\<close>

fun picklable :: "pyobj \<Rightarrow> bool" where
  "picklable (PList i xs) = list_all picklable xs"
| "picklable PUnpicklable = False"
| "picklable obj = True"

text \<open>
  A stretch of the stream without \<open>STOP\<close>, executed opcode by opcode.
\<close>

fun exec :: "unpickler \<Rightarrow> opcode list \<Rightarrow> error + unpickler" where
  "exec u [] = Inr u"
| "exec u (opc # ops) =
     (case dispatch u opc of
        Inl e \<Rightarrow> Inl e
      | Inr u' \<Rightarrow> exec u' ops)"

text \<open>The parts of an unpickler that a read pass never changes.\<close>

definition same_setup :: "unpickler \<Rightarrow> unpickler \<Rightarrow> bool" where
  "same_setup u u' \<longleftrightarrow>
     u_filename u' = u_filename u \<and> u_dirname u' = u_dirname u \<and>
     mmap_mode u' = mmap_mode u \<and> u_handles u' = u_handles u \<and>
     u_stream u' = u_stream u \<and> u_disk u' = u_disk u"

text \<open>What a pass has written to the main stream between two of its states.\<close>

definition emitted :: "pickler \<Rightarrow> pickler \<Rightarrow> opcode list" where
  "emitted st st' = drop (length (written st)) (written st')"

text \<open>The side file with counter \<open>c\<close> of a pass, as the unpickler looks for it.\<close>

definition side_file :: "unpickler \<Rightarrow> pickler \<Rightarrow> int \<Rightarrow> fcontent option" where
  "side_file u st c =
     fs_read (u_disk u) (open_file u (os_path_basename (npy_name (p_filename st) c)))"

text \<open>
  The nodes of a graph, and graphs in which an identity stands for one object: two
  nodes with the same identity are the same node.
\<close>

fun nodes :: "pyobj \<Rightarrow> pyobj list" where
  "nodes (PList i xs) = PList i xs # concat (map nodes xs)"
| "nodes obj = [obj]"

definition consistent :: "pyobj set \<Rightarrow> bool" where
  "consistent U \<longleftrightarrow> (\<forall>x\<in>U. \<forall>y\<in>U. obj_id x \<noteq> None \<and> obj_id x = obj_id y \<longrightarrow> x = y)"

text \<open>
  A loaded value represents a node stably when it does so in every heap that extends
  the current one and agrees with it outside the addresses of the lists that are still
  being filled.
\<close>

definition agree_except :: "nat set \<Rightarrow> hobj list \<Rightarrow> hobj list \<Rightarrow> bool" where
  "agree_except P h H \<longleftrightarrow> length h \<le> length H \<and> (\<forall>a<length h. a \<notin> P \<longrightarrow> H ! a = h ! a)"

definition stable :: "nat set \<Rightarrow> hobj list \<Rightarrow> sval \<Rightarrow> pyobj \<Rightarrow> bool" where
  "stable P h r v \<longleftrightarrow> (\<forall>H. agree_except P h H \<longrightarrow> represents H r v)"

text \<open>
  The memo of the unpickler matches the memo of the pickler on a set of nodes; and on
  the nodes that a stretch of the pass has memoized.
\<close>

definition memo_ok :: "nat set \<Rightarrow> pickler \<Rightarrow> unpickler \<Rightarrow> pyobj set \<Rightarrow> bool" where
  "memo_ok P st u X \<longleftrightarrow>
     (\<forall>x\<in>X. \<forall>k. memo_get st x = Some k \<longrightarrow>
        (\<exists>r. u_memo u k = Some r \<and> stable P (heap u) r x))"

definition memo_new :: "nat set \<Rightarrow> pickler \<Rightarrow> pickler \<Rightarrow> unpickler \<Rightarrow> pyobj set \<Rightarrow> bool" where
  "memo_new P st st' u X \<longleftrightarrow>
     (\<forall>x\<in>X. \<forall>k. memo_get st x = None \<and> memo_get st' x = Some k \<longrightarrow>
        (\<exists>r. u_memo u k = Some r \<and> stable P (heap u) r x))"

definition grows :: "pickler \<Rightarrow> unpickler \<Rightarrow> unpickler \<Rightarrow> bool" where
  "grows st u u' \<longleftrightarrow>
     same_setup u u' \<and> (\<exists>hnew. heap u' = heap u @ hnew) \<and>
     (\<forall>k<length (memo st). u_memo u' k = u_memo u k)"

text \<open>
  The unpickler is ready for the stretch of the stream that the pass writes between
  \<open>st\<close> and \<open>st'\<close>: its memo matches on the nodes concerned, it loads copies, and it
  finds each side file of the stretch with the content the pass wrote.
\<close>

definition ready :: "nat set \<Rightarrow> pickler \<Rightarrow> pickler \<Rightarrow> unpickler \<Rightarrow> pyobj set \<Rightarrow> bool" where
  "ready P st st' u X \<longleftrightarrow>
     pinv st \<and> memo_ok P st u X \<and> mmap_mode u = None \<and>
     (\<forall>c. npy_counter st < c \<and> c \<le> npy_counter st' \<longrightarrow>
          side_file u st c = fs_read (disk st') (npy_name (p_filename st) c)) \<and>
     (\<forall>a\<in>P. a < length (heap u))"

text \<open>
  Executing that stretch pushes values that represent the objects written, and leaves
  the memo matching on everything the stretch has memoized.
\<close>

definition rebuilt ::
    "pyobj set \<Rightarrow> nat set \<Rightarrow> pickler \<Rightarrow> pickler \<Rightarrow> unpickler \<Rightarrow> sval list \<Rightarrow> pyobj list \<Rightarrow> bool" where
  "rebuilt U P st st' u rs xs \<longleftrightarrow>
     (\<exists>u'. exec u (emitted st st') = Inr u' \<and> stack u' = rev rs @ stack u \<and>
           grows st u u' \<and> list_all2 (stable P (heap u')) rs xs \<and> memo_new P st st' u' U)"

text \<open>The states of the two passes after the opening of a list.\<close>

definition list_opened :: "pickler \<Rightarrow> oid \<Rightarrow> pickler" where
  "list_opened st i = Pickler_write (memoize (Pickler_write st [EMPTY_LIST]) i) [MARK]"

definition list_started :: "pickler \<Rightarrow> unpickler \<Rightarrow> unpickler" where
  "list_started st u =
     u\<lparr>stack := SMark # SRef (length (heap u)) # stack u,
       heap := heap u @ [HList []],
       u_memo := (u_memo u)(length (memo st) \<mapsto> SRef (length (heap u)))\<rparr>"

text \<open>The unpickler that \<open>NumpyUnpickler.__init__\<close> makes for a stream it could open.\<close>

definition unpickler_for :: "filesystem \<Rightarrow> string \<Rightarrow> string option \<Rightarrow> opcode list \<Rightarrow> unpickler" where
  "unpickler_for fs filename mode ops =
     \<lparr>u_filename = os_path_basename filename, u_dirname = os_path_dirname filename,
      mmap_mode = mode,
      u_handles = [(''file_handle'',
                    os_path_join (os_path_dirname filename) (os_path_basename filename))],
      u_stream = Pickle ops, stack = [], u_memo = Map.empty, heap = [],
      u_disk = fs\<lparr>opened := opened fs @
                 [os_path_join (os_path_dirname filename) (os_path_basename filename)]\<rparr>\<rparr>"

text \<open>What \<open>os.path.join(d, b)\<close> puts in front of a relative \<open>b\<close>.\<close>

definition join_prefix :: "string \<Rightarrow> string" where
  "join_prefix d = (if d = [] \<or> last d = slash then d else d @ [slash])"

text \<open>
  Nothing is left of a directory: it is not among the directories and no file or
  directory lies within it.
\<close>

definition no_trace :: "filesystem \<Rightarrow> string \<Rightarrow> bool" where
  "no_trace fs d \<longleftrightarrow>
     normslash d \<notin> set (dirs fs) \<and>
     (\<forall>p\<in>set (map fst (files fs)). \<not> within d p) \<and>
     (\<forall>p\<in>set (dirs fs). \<not> within d p)"

section \<open>Properties\<close>

subsection \<open>Basic facts about the engine's state\<close>

lemma deref_stack_upd [simp]: "deref (u\<lparr>stack := s\<rparr>) v = deref u v"
  by (cases v) simp_all

lemma isinstance_stack_upd [simp]:
  "isinstance_NDArrayWrapper (u\<lparr>stack := s\<rparr>) v = isinstance_NDArrayWrapper u v"
  by (simp add: isinstance_NDArrayWrapper_def)

lemma wrapper_filename_stack_upd [simp]:
  "wrapper_filename (u\<lparr>stack := s\<rparr>) v = wrapper_filename u v"
  by (simp add: wrapper_filename_def)

lemma ex_build_base_eq: "Unpickler_load_build ex_build_before = Inr ex_build_base"
  by (simp add: Unpickler_load_build_def ex_build_before_def ex_build_base_def store_def)

lemma ex_build_after_eq: "load_build ex_build_before = Inr ex_build_after"
  by (simp add: load_build_def ex_build_base_eq)
     (simp add: ex_build_base_def ex_build_before_def ex_build_after_def
        isinstance_NDArrayWrapper_def wrapper_filename_def np_load_def fs_read_def
        open_file_def os_path_join_def slash_def alloc_def)

subsection \<open>Path names\<close>

lemma normslash_dup: "normslash (xs @ slash # slash # ys) = normslash (xs @ slash # ys)"
proof (induction xs rule: normslash.induct)
  case (1 a b cs)
  then show ?case by (cases cs) auto
qed simp_all

lemma normslash_replicate:
  "normslash (xs @ replicate (Suc k) slash @ ys) = normslash (xs @ slash # ys)"
  by (induction k) (simp_all add: normslash_dup)

lemma normslash_append:
  "ys \<noteq> [] \<Longrightarrow> hd ys \<noteq> slash \<Longrightarrow> normslash (xs @ ys) = normslash xs @ normslash ys"
proof (induction xs rule: normslash.induct)
  case (1 a b cs)
  then show ?case by simp
qed (cases ys; auto)+

lemma normslash_noslash: "slash \<notin> set xs \<Longrightarrow> normslash xs = xs"
  by (induction xs rule: normslash.induct) auto

lemma length_normslash: "length (normslash xs) \<le> length xs"
  by (induction xs rule: normslash.induct) auto

lemma normslash_Nil_iff [simp]: "normslash xs = [] \<longleftrightarrow> xs = []"
  by (induction xs rule: normslash.induct) auto

lemma head_base: "path_head q @ os_path_basename q = q"
  unfolding path_head_def os_path_basename_def
  by (metis rev_append rev_rev_ident takeWhile_dropWhile_id)

lemma basename_noslash: "slash \<notin> set (os_path_basename q)"
  unfolding os_path_basename_def
  by (auto dest: set_takeWhileD)

lemma head_last: "path_head q \<noteq> [] \<Longrightarrow> last (path_head q) = slash"
  unfolding path_head_def
  by (metis (mono_tags, lifting) hd_dropWhile last_rev rev_is_Nil_conv)

lemma basename_append:
  assumes "slash \<notin> set s"
  shows "os_path_basename (p @ s) = os_path_basename p @ s"
proof -
  have "\<And>c. c \<in> set (rev s) \<Longrightarrow> c \<noteq> slash" using assms by auto
  then have "takeWhile (\<lambda>c. c \<noteq> slash) (rev s @ rev p) = rev s @ takeWhile (\<lambda>c. c \<noteq> slash) (rev p)"
    by (rule takeWhile_append2)
  then show ?thesis by (simp add: os_path_basename_def)
qed

lemma head_append:
  assumes "slash \<notin> set s"
  shows "path_head (p @ s) = path_head p"
proof -
  have "\<And>c. c \<in> set (rev s) \<Longrightarrow> c \<noteq> slash" using assms by auto
  then have "dropWhile (\<lambda>c. c \<noteq> slash) (rev s @ rev p) = dropWhile (\<lambda>c. c \<noteq> slash) (rev p)"
    by (rule dropWhile_append2)
  then show ?thesis by (simp add: path_head_def)
qed

lemma dirname_append: "slash \<notin> set s \<Longrightarrow> os_path_dirname (p @ s) = os_path_dirname p"
  by (simp add: os_path_dirname_def head_append)

lemma rstrip_decomp:
  "\<exists>k. h = rstrip_slash h @ replicate k slash"
proof -
  have "rev h = takeWhile (\<lambda>c. c = slash) (rev h) @ dropWhile (\<lambda>c. c = slash) (rev h)"
    by simp
  moreover have "takeWhile (\<lambda>c. c = slash) (rev h) = replicate (length (takeWhile (\<lambda>c. c = slash) (rev h))) slash"
    by (metis (mono_tags, lifting) replicate_length_same set_takeWhileD)
  ultimately have "rev h = replicate (length (takeWhile (\<lambda>c. c = slash) (rev h))) slash @ rev (rstrip_slash h)"
    by (simp add: rstrip_slash_def)
  then have "h = rstrip_slash h @ replicate (length (takeWhile (\<lambda>c. c = slash) (rev h))) slash"
    by (metis rev_append rev_replicate rev_rev_ident)
  then show ?thesis ..
qed

lemma rstrip_last: "rstrip_slash h \<noteq> [] \<Longrightarrow> last (rstrip_slash h) \<noteq> slash"
  unfolding rstrip_slash_def
  by (metis (mono_tags, lifting) hd_dropWhile last_rev rev_is_Nil_conv)

lemma rstrip_Nil: "rstrip_slash h = [] \<longleftrightarrow> list_all (\<lambda>c. c = slash) h"
  unfolding rstrip_slash_def
  by (auto simp: list_all_iff dropWhile_eq_Nil_conv)

lemma join_dirname_basename:
  "normslash (os_path_join (os_path_dirname q) (os_path_basename q)) = normslash q"
proof -
  let ?h = "path_head q" and ?b = "os_path_basename q"
  have q: "q = ?h @ ?b" by (simp add: head_base)
  have nb: "\<not> (?b \<noteq> [] \<and> hd ?b = slash)"
    using basename_noslash [of q] by (cases ?b) auto
  show ?thesis
  proof (cases "?h \<noteq> [] \<and> \<not> list_all (\<lambda>c. c = slash) ?h")
    case False
    then have d: "os_path_dirname q = ?h" by (auto simp: os_path_dirname_def Let_def)
    have "os_path_join ?h ?b = ?h @ ?b"
      using nb head_last [of q] by (auto simp: os_path_join_def)
    with d q show ?thesis by simp
  next
    case True
    then have d: "os_path_dirname q = rstrip_slash ?h" by (simp add: os_path_dirname_def Let_def)
    let ?d = "rstrip_slash ?h"
    from True have dne: "?d \<noteq> []" by (simp add: rstrip_Nil)
    obtain k where k: "?h = ?d @ replicate k slash" using rstrip_decomp by blast
    have "k \<noteq> 0"
    proof
      assume "k = 0"
      with k have "?h = ?d" by simp
      with head_last [of q] rstrip_last [of ?h] dne show False by simp
    qed
    then obtain k' where k': "k = Suc k'" by (cases k) auto
    have j: "os_path_join ?d ?b = ?d @ slash # ?b"
      using nb dne rstrip_last [of ?h] by (auto simp: os_path_join_def)
    have "normslash q = normslash (?d @ replicate (Suc k') slash @ ?b)"
      using q k k' by (metis append.assoc)
    also have "\<dots> = normslash (?d @ slash # ?b)" by (rule normslash_replicate)
    finally show ?thesis using d j by simp
  qed
qed
lemma join_dirname:
  assumes "slash \<notin> set n"
  shows "normslash (os_path_join (os_path_dirname q) n) = normslash (path_head q @ n)"
proof -
  let ?h = "path_head q"
  have nb: "\<not> (n \<noteq> [] \<and> hd n = slash)" using assms by (cases n) auto
  show ?thesis
  proof (cases "?h \<noteq> [] \<and> \<not> list_all (\<lambda>c. c = slash) ?h")
    case False
    then have d: "os_path_dirname q = ?h" by (auto simp: os_path_dirname_def Let_def)
    have "os_path_join ?h n = ?h @ n"
      using nb head_last [of q] by (auto simp: os_path_join_def)
    with d show ?thesis by simp
  next
    case True
    then have d: "os_path_dirname q = rstrip_slash ?h" by (simp add: os_path_dirname_def Let_def)
    let ?d = "rstrip_slash ?h"
    from True have dne: "?d \<noteq> []" by (simp add: rstrip_Nil)
    obtain k where k: "?h = ?d @ replicate k slash" using rstrip_decomp by blast
    have "k \<noteq> 0"
    proof
      assume "k = 0"
      with k have "?h = ?d" by simp
      with head_last [of q] rstrip_last [of ?h] dne show False by simp
    qed
    then obtain k' where k': "k = Suc k'" by (cases k) auto
    have j: "os_path_join ?d n = ?d @ slash # n"
      using nb dne rstrip_last [of ?h] by (auto simp: os_path_join_def)
    have "normslash (?h @ n) = normslash (?d @ replicate (Suc k') slash @ n)"
      using k k' by (metis append.assoc)
    also have "\<dots> = normslash (?d @ slash # n)" by (rule normslash_replicate)
    finally show ?thesis using d j by simp
  qed
qed

lemma join_relative: "slash \<notin> set b \<Longrightarrow> os_path_join d b = join_prefix d @ b"
  by (cases b) (auto simp: os_path_join_def join_prefix_def)

lemma path_head_prefix: "slash \<notin> set b \<Longrightarrow> path_head (join_prefix d @ b) = join_prefix d"
proof -
  assume b: "slash \<notin> set b"
  have "path_head (join_prefix d) = join_prefix d"
    by (cases d rule: rev_cases) (auto simp: path_head_def join_prefix_def)
  then show ?thesis using b by (simp add: head_append)
qed

lemma basename_prefix: "slash \<notin> set b \<Longrightarrow> os_path_basename (join_prefix d @ b) = b"
proof -
  assume b: "slash \<notin> set b"
  have "os_path_basename (join_prefix d) = []"
    by (cases d rule: rev_cases) (auto simp: os_path_basename_def join_prefix_def)
  then show ?thesis using b by (simp add: basename_append)
qed

lemma join_relocated:
  assumes "slash \<notin> set b" and "slash \<notin> set n"
  shows "normslash (os_path_join (os_path_dirname (os_path_join d b)) n) =
         normslash (os_path_join d n)"
proof -
  have "normslash (os_path_join (os_path_dirname (os_path_join d b)) n) =
        normslash (path_head (os_path_join d b) @ n)"
    by (rule join_dirname [OF assms(2)])
  also have "\<dots> = normslash (join_prefix d @ n)"
    by (simp add: join_relative [OF assms(1)] path_head_prefix [OF assms(1)])
  also have "\<dots> = normslash (os_path_join d n)"
    by (simp add: join_relative [OF assms(2)])
  finally show ?thesis .
qed

subsection \<open>The names of the side files\<close>

lemma digit_val_nth: "k < 10 \<Longrightarrow> digit_val (''0123456789'' ! k) = k"
proof -
  assume "k < 10"
  then have "k \<in> {0, 1, 2, 3, 4, 5, 6, 7, 8, 9}" by auto
  then show ?thesis by (auto simp: digit_val_def)
qed

lemma undigits_digits: "undigits (digits n) = n"
proof (induction n rule: digits.induct)
  case (1 n)
  show ?case
  proof (cases "n < 10")
    case True
    then show ?thesis by (subst digits.simps) (simp add: undigits_def digit_val_nth)
  next
    case False
    then have "undigits (digits (n div 10)) = n div 10" using 1 by simp
    then show ?thesis using False
      by (subst digits.simps) (simp add: undigits_def digit_val_nth)
  qed
qed

lemma digits_chars: "set (digits n) \<subseteq> set ''0123456789''"
proof (induction n rule: digits.induct)
  case (1 n)
  have nth: "\<And>k. k < 10 \<Longrightarrow> ''0123456789'' ! k \<in> set ''0123456789''"
    by (rule nth_mem) simp
  show ?case
  proof (cases "n < 10")
    case True
    then show ?thesis using nth [of n] by (subst digits.simps) simp
  next
    case False
    then show ?thesis using 1 nth [of "n mod 10"] by (subst digits.simps) simp
  qed
qed

lemma digits_not_Nil: "digits n \<noteq> []"
  by (subst digits.simps) simp

lemma unfmt_fmt: "unfmt (fmt_02i i) = i"
proof -
  have hd: "\<And>n. hd (digits n) \<noteq> CHR ''-''"
  proof -
    fix n
    have "hd (digits n) \<in> set (digits n)" using digits_not_Nil by simp
    then have "hd (digits n) \<in> set ''0123456789''" using digits_chars by blast
    then show "hd (digits n) \<noteq> CHR ''-''" by auto
  qed
  have z: "\<And>s. undigits (CHR ''0'' # s) = undigits s"
    by (simp add: undigits_def digit_val_def)
  show ?thesis
    using hd [of "nat i"] digits_not_Nil [of "nat i"]
    by (auto simp: unfmt_def fmt_02i_def undigits_digits z)
qed

lemma fmt_02i_inj: "fmt_02i i = fmt_02i j \<Longrightarrow> i = j"
  by (metis unfmt_fmt)

lemma fmt_02i_noslash: "slash \<notin> set (fmt_02i i)"
proof -
  have "\<And>n. slash \<notin> set (digits n)"
  proof
    fix n assume "slash \<in> set (digits n)"
    then have "slash \<in> set ''0123456789''" using digits_chars by blast
    then show False by (auto simp: slash_def)
  qed
  then show ?thesis by (auto simp: fmt_02i_def slash_def)
qed

lemma npy_name_suffix: "npy_name p c = p @ npy_suffix c"
  by (simp add: npy_name_def npy_suffix_def)

lemma npy_suffix_noslash: "slash \<notin> set (npy_suffix c)"
  using fmt_02i_noslash [of c] by (auto simp: npy_suffix_def slash_def)

lemma npy_suffix_inj: "npy_suffix c = npy_suffix d \<Longrightarrow> c = d"
  by (auto simp: npy_suffix_def dest: fmt_02i_inj)

lemma normslash_npy_name: "normslash (npy_name p c) = normslash p @ npy_suffix c"
proof -
  have "npy_suffix c \<noteq> []" "hd (npy_suffix c) \<noteq> slash"
    by (simp_all add: npy_suffix_def slash_def)
  then have "normslash (p @ npy_suffix c) = normslash p @ normslash (npy_suffix c)"
    by (rule normslash_append)
  then show ?thesis
    by (simp add: npy_name_suffix normslash_noslash npy_suffix_noslash)
qed

lemma normslash_npy_name_inj:
  "normslash (npy_name p c) = normslash (npy_name p d) \<Longrightarrow> c = d"
  by (simp add: normslash_npy_name npy_suffix_inj)

lemma normslash_npy_name_neq: "normslash (npy_name p c) \<noteq> normslash p"
  by (simp add: normslash_npy_name npy_suffix_def)

lemma open_file_npy_name:
  "normslash (os_path_join (os_path_dirname p) (os_path_basename (npy_name p c))) =
   normslash (npy_name p c)"
  using join_dirname_basename [of "npy_name p c"]
  by (simp add: npy_name_suffix dirname_append npy_suffix_noslash)

lemma open_file_main:
  "normslash (os_path_join (os_path_dirname p) (os_path_basename p)) = normslash p"
  by (rule join_dirname_basename)

subsection \<open>The write pass: what a pass changes\<close>

declare save.simps [simp del] Pickler_save.simps [simp del]

lemma final_simps [simp]: "final (Inr st) = st" "final (Inl (e, st)) = st"
  by (simp_all add: final_def)

lemma pframe_refl [simp]: "pframe st st"
  by (auto simp: pframe_def)

lemma pframe_trans:
  assumes "pframe a b" and "pframe b c"
  shows "pframe a c"
proof -
  let ?p = "p_filename a"
  from assms have pb: "p_filename b = ?p" by (simp add: pframe_def)
  from assms obtain c1 c2 where w: "written b = written a @ c1" "STOP \<notin> set c1"
    "written c = written b @ c2" "STOP \<notin> set c2" by (auto simp: pframe_def)
  from assms obtain n1 n2 where m: "memo b = memo a @ n1" "memo c = memo b @ n2"
    by (auto simp: pframe_def)
  have cnt: "npy_counter a \<le> npy_counter b" "npy_counter b \<le> npy_counter c"
    using assms by (auto simp: pframe_def)
  have f6: "map_of (files (disk c)) q = map_of (files (disk a)) q"
    if "\<forall>k. npy_counter a < k \<and> k \<le> npy_counter c \<longrightarrow> q \<noteq> normslash (npy_name ?p k)" for q
  proof -
    have "map_of (files (disk c)) q = map_of (files (disk b)) q"
      using assms(2) that cnt pb by (auto simp: pframe_def)
    also have "\<dots> = map_of (files (disk a)) q"
      using assms(1) that cnt by (auto simp: pframe_def)
    finally show ?thesis .
  qed
  have f7: "\<exists>x. fs_read (disk c) (npy_name ?p k) = Some (Npy x)"
    if "npy_counter a < k" "k \<le> npy_counter c" for k
  proof (cases "k \<le> npy_counter b")
    case False
    then show ?thesis using assms(2) that pb by (auto simp: pframe_def)
  next
    case True
    then have "\<exists>x. fs_read (disk b) (npy_name ?p k) = Some (Npy x)"
      using assms(1) that(1) by (simp add: pframe_def)
    then obtain x where x: "fs_read (disk b) (npy_name ?p k) = Some (Npy x)" ..
    have "\<forall>j. npy_counter b < j \<and> j \<le> npy_counter c \<longrightarrow>
        normslash (npy_name ?p k) \<noteq> normslash (npy_name (p_filename b) j)"
      using True pb by (auto dest: normslash_npy_name_inj)
    then have "map_of (files (disk c)) (normslash (npy_name ?p k)) =
               map_of (files (disk b)) (normslash (npy_name ?p k))"
      using assms(2) by (simp add: pframe_def)
    with x show ?thesis by (simp add: fs_read_def)
  qed
  show ?thesis
    unfolding pframe_def
    using assms w m cnt f6 f7 by (auto simp: pframe_def)
qed

lemma pframe_write: "STOP \<notin> set ops \<Longrightarrow> pframe st (Pickler_write st ops)"
  by (auto simp: pframe_def Pickler_write_def)

lemma pframe_memoize: "pframe st (memoize st i)"
  by (auto simp: pframe_def memoize_def Pickler_write_def)

lemma map_of_update_other: "k \<noteq> k' \<Longrightarrow> map_of (AList.update k v al) k' = map_of al k'"
  by (simp add: update_conv')

lemma pframe_externalize: "pframe st (fst (externalize st obj))"
proof (cases obj)
  case (PArray i a)
  show ?thesis
  proof (cases "can_save (np st) (npy_name (p_filename st) (npy_counter st + 1)) a")
    case False
    then show ?thesis using PArray by (auto simp: Let_def np_save_def pframe_def)
  next
    case True
    have one: "\<And>c. npy_counter st < c \<Longrightarrow> c \<le> npy_counter st + 1 \<Longrightarrow> c = npy_counter st + 1"
      by arith
    from True show ?thesis using PArray
      by (auto simp: Let_def np_save_def pframe_def fs_write_def fs_read_def update_conv'
            dest: one)
  qed
qed simp_all

lemma pframe_save:
  "pframe st (final (save st v))"
  "pframe st (final (Pickler_save st v))"
  "pframe st (final (save_items st xs))"
proof (induction st v and st v and st xs rule: save_Pickler_save_save_items.induct)
  case (1 st obj)
  obtain x y where e: "externalize st obj = (x, y)" by (cases "externalize st obj")
  then have "pframe x (final (Pickler_save x y))" using 1 by simp
  moreover have "pframe st x" using pframe_externalize [of st obj] e by simp
  ultimately show ?case using e by (subst save.simps) (auto intro: pframe_trans)
next
  case (2 st obj)
  show ?case
  proof (cases "memo_get st obj")
    case (Some k)
    then show ?thesis by (subst Pickler_save.simps) (simp add: pframe_write)
  next
    case None
    show ?thesis
    proof (cases obj)
      case (PList i xs)
      let ?st2 = "Pickler_write (memoize (Pickler_write st [EMPTY_LIST]) i) [MARK]"
      have a: "pframe st ?st2"
        by (intro pframe_trans [OF pframe_write pframe_trans [OF pframe_memoize pframe_write]]) simp_all
      have b: "pframe ?st2 (final (save_items ?st2 xs))" using 2 None PList by simp
      show ?thesis
      proof (cases "save_items ?st2 xs")
        case (Inl e)
        then show ?thesis using None PList a b
          by (subst Pickler_save.simps) (auto intro: pframe_trans)
      next
        case (Inr st')
        then have "pframe st st'" using a b by (auto intro: pframe_trans)
        then have "pframe st (Pickler_write st' [APPENDS])"
          by (rule pframe_trans) (simp add: pframe_write)
        then show ?thesis using None PList Inr
          by (subst Pickler_save.simps) simp
      qed
    next
      case (PArray i a)
      have "pframe st (Pickler_write (memoize (Pickler_write st [RECONSTRUCT]) i) [ARRSTATE a, BUILD])"
        by (intro pframe_trans [OF pframe_write pframe_trans [OF pframe_memoize pframe_write]]) simp_all
      then show ?thesis using None PArray by (subst Pickler_save.simps) simp
    next
      case (PWrapper i f)
      have "pframe st (Pickler_write (memoize (Pickler_write st [NEWOBJ ''NDArrayWrapper'']) i)
                      [EMPTY_DICT, BINSTRING ''filename'', BINSTRING f, SETITEM, BUILD])"
        by (intro pframe_trans [OF pframe_write pframe_trans [OF pframe_memoize pframe_write]]) simp_all
      then show ?thesis using None PWrapper by (subst Pickler_save.simps) simp
    qed (use None in \<open>subst Pickler_save.simps, simp add: pframe_write\<close>)+
  qed
next
  case (3 st)
  then show ?case by simp
next
  case (4 st x xs)
  show ?case
  proof (cases "save st x")
    case (Inl e)
    then show ?thesis using 4(1) by (cases e) simp
  next
    case (Inr st')
    then show ?thesis using 4 by (auto intro: pframe_trans)
  qed
qed

lemma index_of_None: "index_of x xs = None \<longleftrightarrow> x \<notin> set xs"
  by (induction xs) auto

lemma placeholders_append [simp]:
  "placeholders (xs @ ys) = placeholders xs + placeholders ys"
  by (simp add: placeholders_def)

lemma pinv_write [simp]: "pinv (Pickler_write st ops) = pinv st"
  by (simp add: pinv_def Pickler_write_def)

lemma balance_write:
  "balance (Pickler_write st ops) = balance st - int (placeholders ops)"
  by (simp add: balance_def Pickler_write_def)

lemma pinv_memoize: "is_caller i \<Longrightarrow> pinv st \<Longrightarrow> pinv (memoize st i)"
  by (cases i) (auto simp: pinv_def memoize_def Pickler_write_def)

lemma balance_memoize [simp]: "balance (memoize st i) = balance st"
  by (simp add: balance_def memoize_def Pickler_write_def placeholders_def)

lemma save_array_ok:
  assumes "can_save (np st) (npy_name (p_filename st) (npy_counter st + 1)) a"
    and "Pass (npy_counter st + 1) \<notin> set (memo st)"
  shows "save st (PArray i a) =
     Inr (st\<lparr>npy_counter := npy_counter st + 1,
             p_filenames := p_filenames st @ [npy_name (p_filename st) (npy_counter st + 1)],
             disk := fs_write (disk st) (npy_name (p_filename st) (npy_counter st + 1)) (Npy a),
             memo := memo st @ [Pass (npy_counter st + 1)],
             written := written st @
               [NEWOBJ ''NDArrayWrapper'', PUT (length (memo st)), EMPTY_DICT,
                BINSTRING ''filename'',
                BINSTRING (os_path_basename (npy_name (p_filename st) (npy_counter st + 1))),
                SETITEM, BUILD]\<rparr>)"
proof -
  have "index_of (Pass (npy_counter st + 1)) (memo st) = None"
    using assms(2) by (simp add: index_of_None)
  then show ?thesis using assms(1)
    by (simp add: save.simps Pickler_save.simps Let_def np_save_def memo_get_def
          memoize_def Pickler_write_def)
qed

lemma save_array_fail:
  assumes "\<not> can_save (np st) (npy_name (p_filename st) (npy_counter st + 1)) a"
  shows "save st (PArray i a) =
     Pickler_save
       (st\<lparr>p_filenames := p_filenames st @ [npy_name (p_filename st) (npy_counter st + 1)]\<rparr>)
       (PArray i a)"
  using assms
  by (simp add: save.simps Let_def np_save_def)

lemma save_other: "\<not> isinstance_ndarray obj \<Longrightarrow> save st obj = Pickler_save st obj"
  by (cases obj) (simp_all add: save.simps)

lemma pinv_filenames [simp]: "pinv (st\<lparr>p_filenames := fs\<rparr>) = pinv st"
  by (simp add: pinv_def)

lemma balance_filenames [simp]: "balance (st\<lparr>p_filenames := fs\<rparr>) = balance st"
  by (simp add: balance_def)

lemma pinv_balance_save:
  "plain v \<Longrightarrow> pinv st \<Longrightarrow>
     pinv (final (save st v)) \<and> balance (final (save st v)) = balance st"
  "plain v \<Longrightarrow> pinv st \<Longrightarrow>
     pinv (final (Pickler_save st v)) \<and> balance (final (Pickler_save st v)) = balance st"
  "list_all plain xs \<Longrightarrow> pinv st \<Longrightarrow>
     pinv (final (save_items st xs)) \<and> balance (final (save_items st xs)) = balance st"
proof (induction st v and st v and st xs rule: save_Pickler_save_save_items.induct)
  case (1 st obj)
  show ?case
  proof (cases obj)
    case (PArray i a)
    show ?thesis
    proof (cases "can_save (np st) (npy_name (p_filename st) (npy_counter st + 1)) a")
      case True
      have "Pass (npy_counter st + 1) \<notin> set (memo st)"
        using 1(3) by (auto simp: pinv_def)
      with True have "save st obj = Inr (st\<lparr>npy_counter := npy_counter st + 1,
             p_filenames := p_filenames st @ [npy_name (p_filename st) (npy_counter st + 1)],
             disk := fs_write (disk st) (npy_name (p_filename st) (npy_counter st + 1)) (Npy a),
             memo := memo st @ [Pass (npy_counter st + 1)],
             written := written st @
               [NEWOBJ ''NDArrayWrapper'', PUT (length (memo st)), EMPTY_DICT,
                BINSTRING ''filename'',
                BINSTRING (os_path_basename (npy_name (p_filename st) (npy_counter st + 1))),
                SETITEM, BUILD]\<rparr>)"
        unfolding PArray by (rule save_array_ok)
      then show ?thesis using 1(3)
        by (auto simp: pinv_def balance_def placeholders_def)
    next
      case False
      let ?st = "st\<lparr>p_filenames := p_filenames st @ [npy_name (p_filename st) (npy_counter st + 1)]\<rparr>"
      have e: "externalize st obj = (?st, obj)"
        using False PArray by (simp add: Let_def np_save_def)
      have "pinv (final (Pickler_save ?st obj)) \<and> balance (final (Pickler_save ?st obj)) = balance ?st"
        using 1(1) [OF e [symmetric]] 1(2,3) by simp
      then show ?thesis using False PArray by (simp add: save_array_fail)
    qed
  next
    case (PWrapper i f)
    then show ?thesis using 1 by simp
  qed (use 1 in \<open>simp_all add: save_other\<close>)
next
  case (2 st obj)
  show ?case
  proof (cases "memo_get st obj")
    case (Some k)
    then show ?thesis using 2(3)
      by (subst (1 2) Pickler_save.simps) (simp add: balance_write placeholders_def)
  next
    case None
    show ?thesis
    proof (cases obj)
      case (PList i xs)
      let ?st2 = "Pickler_write (memoize (Pickler_write st [EMPTY_LIST]) i) [MARK]"
      have p2: "pinv ?st2" using 2(2,3) PList by (simp add: pinv_memoize)
      have b2: "balance ?st2 = balance st" by (simp add: balance_write placeholders_def)
      have ih: "pinv (final (save_items ?st2 xs)) \<and> balance (final (save_items ?st2 xs)) = balance ?st2"
        using 2(1) [OF None PList] 2(2) PList p2 by simp
      show ?thesis
      proof (cases "save_items ?st2 xs")
        case (Inl e)
        then show ?thesis using None PList ih b2
          by (subst (1 2) Pickler_save.simps) (cases e, simp)
      next
        case (Inr st')
        then show ?thesis using None PList ih b2
          by (subst (1 2) Pickler_save.simps) (simp add: balance_write placeholders_def)
      qed
    next
      case (PArray i a)
      then show ?thesis using None 2(2,3)
        by (subst (1 2) Pickler_save.simps)
           (simp add: balance_write placeholders_def pinv_memoize)
    next
      case (PWrapper i f)
      then show ?thesis using 2(2) by simp
    qed (use None 2(3) in \<open>subst (1 2) Pickler_save.simps, simp add: balance_write placeholders_def\<close>)+
  qed
next
  case (3 st)
  then show ?case by simp
next
  case (4 st x xs)
  show ?case
  proof (cases "save st x")
    case (Inl e)
    then show ?thesis using 4(1,3,4) by (cases e) simp
  next
    case (Inr st')
    then show ?thesis using 4 by simp
  qed
qed

subsection \<open>The write pass: dump\<close>

lemma ex_two_dump:
  "dump np_fail_first ex_fs0 ex_two ''d/x.pkl'' =
     (Inr [''d/x.pkl'', ''d/x.pkl_01.npy'', ''d/x.pkl_01.npy''], ex_two_fs)"
  by code_simp

lemma ex_two_plain: "plain ex_two"
  by code_simp

lemma init_Inr:
  "NumpyPickler_init m fs p = Inr st0 \<Longrightarrow>
     st0 = \<lparr>p_filename = p, p_filenames = [p], p_handles = [(''file'', p)], npy_counter = 0,
            np = m, memo = [], written = [],
            disk = (fs_write fs p (Pickle []))\<lparr>opened := opened fs @ [p]\<rparr>\<rparr> \<and>
     open_wb fs p = Inr (disk st0)"
  by (auto simp: NumpyPickler_init_def open_wb_def split: sum.splits if_splits)

lemma dump_Inr:
  assumes "dump m fs v p = (Inr manifest, fs')"
  shows "\<exists>st0 st'. NumpyPickler_init m fs p = Inr st0 \<and>
           save (Pickler_write st0 [PROTO 2]) v = Inr st' \<and>
           manifest = p_filenames st' \<and>
           fs' = close_file (fs_write (disk st') p (Pickle (written st' @ [STOP]))) p"
proof -
  from assms obtain st0 where i: "NumpyPickler_init m fs p = Inr st0"
    by (auto simp: dump_def split: sum.splits)
  from assms i obtain st1 where d: "Pickler_dump st0 v = Inr st1"
    and r: "manifest = p_filenames st1" "fs' = flush_close st1"
    by (auto simp: dump_def split: sum.splits prod.splits)
  from d obtain st' where s: "save (Pickler_write st0 [PROTO 2]) v = Inr st'"
    and st1: "st1 = Pickler_write st' [STOP]"
    by (auto simp: Pickler_dump_def split: sum.splits)
  have "pframe (Pickler_write st0 [PROTO 2]) st'"
    using pframe_save(1) [of "Pickler_write st0 [PROTO 2]" v] s by simp
  then have "p_handles st' = [(''file'', p)]"
    using init_Inr [OF i] by (simp add: pframe_def Pickler_write_def)
  then have "flush_close st1 = close_file (fs_write (disk st') p (Pickle (written st' @ [STOP]))) p"
    by (simp add: flush_close_def st1 Pickler_write_def)
  with i s r st1 show ?thesis by (simp add: Pickler_write_def)
qed

lemma save_total:
  "picklable v \<Longrightarrow> \<exists>st'. save st v = Inr st'"
  "picklable v \<Longrightarrow> \<exists>st'. Pickler_save st v = Inr st'"
  "list_all picklable xs \<Longrightarrow> \<exists>st'. save_items st xs = Inr st'"
proof (induction st v and st v and st xs rule: save_Pickler_save_save_items.induct)
  case (1 st obj)
  obtain x y where e: "externalize st obj = (x, y)" by (cases "externalize st obj")
  have "picklable y" using e 1(2)
    by (cases obj) (auto simp: Let_def split: sum.splits)
  then show ?case using 1(1) [OF e [symmetric]] e by (simp add: save.simps)
next
  case (2 st obj)
  show ?case
  proof (cases "memo_get st obj")
    case (Some k)
    then show ?thesis by (simp add: Pickler_save.simps)
  next
    case None
    show ?thesis
    proof (cases obj)
      case (PList i xs)
      then obtain st' where
        "save_items (Pickler_write (memoize (Pickler_write st [EMPTY_LIST]) i) [MARK]) xs = Inr st'"
        using 2(1) [OF None PList] 2(2) by auto
      then show ?thesis using None PList by (simp add: Pickler_save.simps)
    qed (use None 2(2) in \<open>simp_all add: Pickler_save.simps\<close>)
  qed
next
  case (3 st)
  then show ?case by simp
next
  case (4 st x xs)
  then obtain st' where "save st x = Inr st'" by auto
  then show ?case using 4 by auto
qed

lemma dump_total:
  assumes "picklable v" and "open_wb fs p = Inr fs1"
  shows "\<exists>manifest fs'. dump m fs v p = (Inr manifest, fs')"
proof -
  obtain st0 where i: "NumpyPickler_init m fs p = Inr st0"
    using assms(2) by (simp add: NumpyPickler_init_def)
  obtain st' where "save (Pickler_write st0 [PROTO 2]) v = Inr st'"
    using save_total(1) [OF assms(1)] by blast
  then show ?thesis using i by (simp add: dump_def Pickler_dump_def)
qed

lemma dump_releases_handle:
  "opened (snd (dump m fs v p)) =
     (case open_wb fs p of Inl e \<Rightarrow> opened fs | Inr fs1 \<Rightarrow> remove1 p (opened fs @ [p]))"
proof (cases "NumpyPickler_init m fs p")
  case (Inl e)
  then show ?thesis
    by (auto simp: dump_def NumpyPickler_init_def split: sum.splits)
next
  case (Inr st0)
  note st0 = init_Inr [OF Inr]
  let ?st1 = "Pickler_write st0 [PROTO 2]"
  have fr: "pframe ?st1 (final (save ?st1 v))" by (rule pframe_save)
  have h: "p_handles st = [(''file'', p)] \<and> opened (disk st) = opened fs @ [p]"
    if "pframe ?st1 st" for st
    using that st0 by (simp add: pframe_def Pickler_write_def fs_write_def)
  have o: "opened (flush_close st) = remove1 p (opened fs @ [p])"
    if "p_handles st = [(''file'', p)] \<and> opened (disk st) = opened fs @ [p]" for st
    using that by (simp add: flush_close_def close_file_def fs_write_def)
  show ?thesis
  proof (cases "save ?st1 v")
    case (Inl es)
    obtain e st where es: "es = (e, st)" by (cases es)
    with Inl fr have "pframe ?st1 st" by simp
    from o [OF h [OF this]] show ?thesis using Inr Inl es st0
      by (simp add: dump_def Pickler_dump_def)
  next
    case (Inr st')
    with fr have "pframe ?st1 st'" by simp
    from h [OF this] have "p_handles (Pickler_write st' [STOP]) = [(''file'', p)] \<and>
        opened (disk (Pickler_write st' [STOP])) = opened fs @ [p]"
      by (simp add: Pickler_write_def)
    from o [OF this] show ?thesis using \<open>NumpyPickler_init m fs p = Inr st0\<close> Inr st0
      by (simp add: dump_def Pickler_dump_def)
  qed
qed

subsection \<open>The read pass: executing a stream\<close>

lemma exec_append:
  "exec u (xs @ ys) = (case exec u xs of Inl e \<Rightarrow> Inl e | Inr u' \<Rightarrow> exec u' ys)"
  by (induction xs arbitrary: u) (auto split: sum.splits)

lemma run_append:
  "STOP \<notin> set xs \<Longrightarrow>
     run u (xs @ rest) = (case exec u xs of Inl e \<Rightarrow> Inl e | Inr u' \<Rightarrow> run u' rest)"
  by (induction xs arbitrary: u) (auto split: sum.splits)

lemma same_setup_refl [simp]: "same_setup u u"
  by (simp add: same_setup_def)

lemma same_setup_trans: "same_setup a b \<Longrightarrow> same_setup b c \<Longrightarrow> same_setup a c"
  by (simp add: same_setup_def)

lemma store_setup [simp]: "same_setup u (store u' r obj) = same_setup u u'"
  by (cases r) (simp_all add: store_def same_setup_def)

lemma load_build_setup: "load_build u = Inr u' \<Longrightarrow> same_setup u u'"
  by (auto simp: load_build_def Unpickler_load_build_def Let_def alloc_def same_setup_def
        store_def
        split: list.splits sum.splits option.splits hobj.splits sval.splits if_splits)

lemma dispatch_setup: "dispatch u opc = Inr u' \<Longrightarrow> same_setup u u'"
proof (cases opc)
  case BUILD
  then show "dispatch u opc = Inr u' \<Longrightarrow> same_setup u u'" by (simp add: load_build_setup)
next
  case APPENDS
  then show "dispatch u opc = Inr u' \<Longrightarrow> same_setup u u'"
    by (auto simp: load_appends_def Let_def same_setup_def store_def
          split: list.splits option.splits hobj.splits sval.splits)
next
  case SETITEM
  then show "dispatch u opc = Inr u' \<Longrightarrow> same_setup u u'"
    by (auto simp: load_setitem_def same_setup_def store_def
          split: list.splits option.splits hobj.splits sval.splits)
qed (auto simp: same_setup_def push_def alloc_def split: if_splits list.splits option.splits)

lemma exec_setup: "exec u ops = Inr u' \<Longrightarrow> same_setup u u'"
proof (induction ops arbitrary: u)
  case Nil
  then show ?case by simp
next
  case (Cons opc ops)
  then obtain u1 where 1: "dispatch u opc = Inr u1" and 2: "exec u1 ops = Inr u'"
    by (auto split: sum.splits)
  from dispatch_setup [OF 1] Cons.IH [OF 2] show ?case by (rule same_setup_trans)
qed

text \<open>What the engine does with the opcodes of a placeholder.\<close>

lemma exec_placeholder:
  "exec u [NEWOBJ ''NDArrayWrapper'', PUT k, EMPTY_DICT, BINSTRING ''filename'', BINSTRING f,
           SETITEM, BUILD] =
     (case np_load (u_disk u) (open_file u f) (mmap_mode u) of
        Inl e \<Rightarrow> Inl e
      | Inr array \<Rightarrow>
          Inr (u\<lparr>stack := SRef (length (heap u) + 2) # stack u,
                 heap := heap u @ [HInst ''NDArrayWrapper'' [(SStr ''filename'', SStr f)],
                                   HDict [(SStr ''filename'', SStr f)], array],
                 u_memo := (u_memo u)(k \<mapsto> SRef (length (heap u)))\<rparr>))"
  by (simp add: alloc_def push_def load_setitem_def load_build_def Unpickler_load_build_def
        store_def isinstance_NDArrayWrapper_def wrapper_filename_def open_file_def
        nth_append list_update_append Let_def
      split: sum.splits)

lemma exec_inline_array:
  "exec u [RECONSTRUCT, PUT k, ARRSTATE a, BUILD] =
     Inr (u\<lparr>stack := SRef (length (heap u)) # stack u,
            heap := heap u @ [HArray a],
            u_memo := (u_memo u)(k \<mapsto> SRef (length (heap u)))\<rparr>)"
  by (simp add: alloc_def push_def load_build_def Unpickler_load_build_def
        store_def isinstance_NDArrayWrapper_def Let_def)

lemma exec_list_start:
  "exec u [EMPTY_LIST, PUT k, MARK] =
     Inr (u\<lparr>stack := SMark # SRef (length (heap u)) # stack u,
            heap := heap u @ [HList []],
            u_memo := (u_memo u)(k \<mapsto> SRef (length (heap u)))\<rparr>)"
  by (simp add: alloc_def push_def)

lemma exec_appends:
  assumes "stack u = rev rs @ SMark # SRef a # S" and "SMark \<notin> set rs"
    and "a < length (heap u)" and "heap u ! a = HList xs"
  shows "exec u [APPENDS] =
     Inr (u\<lparr>stack := SRef a # S, heap := (heap u)[a := HList (xs @ rs)]\<rparr>)"
proof -
  have n: "\<And>x. x \<in> set (rev rs) \<Longrightarrow> x \<noteq> SMark"
    using assms(2) by auto
  have t: "takeWhile (\<lambda>v. v \<noteq> SMark) (stack u) = rev rs"
    unfolding assms(1) using n by (simp add: takeWhile_tail)
  have "dropWhile (\<lambda>v. v \<noteq> SMark) (rev rs @ SMark # SRef a # S) =
        dropWhile (\<lambda>v. v \<noteq> SMark) (SMark # SRef a # S)"
    by (rule dropWhile_append2) (use n in auto)
  then have d: "dropWhile (\<lambda>v. v \<noteq> SMark) (stack u) = SMark # SRef a # S"
    by (simp add: assms(1))
  show ?thesis using assms(3,4)
    by (simp add: load_appends_def t d store_def)
qed

subsection \<open>The read pass reads every side file\<close>

lemma emitted_refl [simp]: "emitted st st = []"
  by (simp add: emitted_def)

lemma pframe_written: "pframe a b \<Longrightarrow> written b = written a @ emitted a b"
  by (auto simp: pframe_def emitted_def)

lemma emitted_trans:
  "pframe a b \<Longrightarrow> pframe b c \<Longrightarrow> emitted a c = emitted a b @ emitted b c"
  by (auto simp: pframe_def emitted_def)

lemma emitted_write [simp]: "emitted st (Pickler_write st ops) = ops"
  by (simp add: emitted_def Pickler_write_def)

lemma pframe_Inr:
  "save st v = Inr st' \<Longrightarrow> pframe st st'"
  "Pickler_save st v = Inr st' \<Longrightarrow> pframe st st'"
  "save_items st xs = Inr st' \<Longrightarrow> pframe st st'"
  using pframe_save(1) [of st v] pframe_save(2) [of st v] pframe_save(3) [of st xs]
  by simp_all

lemma pinv_Inr:
  "save st v = Inr st' \<Longrightarrow> plain v \<Longrightarrow> pinv st \<Longrightarrow> pinv st'"
  "save_items st xs = Inr st' \<Longrightarrow> list_all plain xs \<Longrightarrow> pinv st \<Longrightarrow> pinv st'"
  using pinv_balance_save(1) [of v st] pinv_balance_save(3) [of xs st]
  by simp_all

lemma side_file_setup:
  "same_setup u u' \<Longrightarrow> p_filename st' = p_filename st \<Longrightarrow> side_file u' st' c = side_file u st c"
  by (simp add: side_file_def same_setup_def open_file_def)

lemma exec_reads_side_files:
  "save st v = Inr st' \<Longrightarrow> plain v \<Longrightarrow> pinv st \<Longrightarrow> exec u (emitted st st') = Inr u' \<Longrightarrow>
     (\<forall>c. npy_counter st < c \<and> c \<le> npy_counter st' \<longrightarrow> (\<exists>a. side_file u st c = Some (Npy a)))"
  "Pickler_save st v = Inr st' \<Longrightarrow> plain v \<Longrightarrow> pinv st \<Longrightarrow> exec u (emitted st st') = Inr u' \<Longrightarrow>
     (\<forall>c. npy_counter st < c \<and> c \<le> npy_counter st' \<longrightarrow> (\<exists>a. side_file u st c = Some (Npy a)))"
  "save_items st xs = Inr st' \<Longrightarrow> list_all plain xs \<Longrightarrow> pinv st \<Longrightarrow> exec u (emitted st st') = Inr u' \<Longrightarrow>
     (\<forall>c. npy_counter st < c \<and> c \<le> npy_counter st' \<longrightarrow> (\<exists>a. side_file u st c = Some (Npy a)))"
proof (induction st v and st v and st xs arbitrary: st' u u' and st' u u' and st' u u'
       rule: save_Pickler_save_save_items.induct)
  case (1 st obj)
  show ?case
  proof (cases obj)
    case (PArray i a)
    show ?thesis
    proof (cases "can_save (np st) (npy_name (p_filename st) (npy_counter st + 1)) a")
      case True
      have nm: "Pass (npy_counter st + 1) \<notin> set (memo st)"
        using 1(4) by (auto simp: pinv_def)
      let ?f = "os_path_basename (npy_name (p_filename st) (npy_counter st + 1))"
      from save_array_ok [OF True nm, of i] 1(2) PArray
      have c: "npy_counter st' = npy_counter st + 1"
        and e: "emitted st st' = [NEWOBJ ''NDArrayWrapper'', PUT (length (memo st)), EMPTY_DICT,
                BINSTRING ''filename'', BINSTRING ?f, SETITEM, BUILD]"
        by (auto simp: emitted_def)
      from 1(5) have "\<exists>arr. np_load (u_disk u) (open_file u ?f) (mmap_mode u) = Inr arr"
        unfolding e exec_placeholder by (auto split: sum.splits)
      then have r: "\<exists>b. side_file u st (npy_counter st + 1) = Some (Npy b)"
        by (auto simp: np_load_def side_file_def split: option.splits fcontent.splits)
      show ?thesis
      proof (intro allI impI)
        fix k assume "npy_counter st < k \<and> k \<le> npy_counter st'"
        then have "k = npy_counter st + 1" using c by arith
        then show "\<exists>a. side_file u st k = Some (Npy a)" using r by simp
      qed
    next
      case False
      let ?st = "st\<lparr>p_filenames := p_filenames st @ [npy_name (p_filename st) (npy_counter st + 1)]\<rparr>"
      have e: "externalize st obj = (?st, obj)"
        using False PArray by (simp add: Let_def np_save_def)
      have s: "Pickler_save ?st obj = Inr st'"
        using 1(2) False PArray by (simp add: save_array_fail)
      have "emitted ?st st' = emitted st st'" by (simp add: emitted_def)
      with 1(1) [OF e [symmetric] s 1(3)] 1(4,5)
      show ?thesis by (simp add: side_file_def)
    qed
  next
    case (PWrapper i f)
    then show ?thesis using 1(3) by simp
  next
    case (PList i xs)
    have e: "externalize st obj = (st, obj)" using PList by simp
    have s: "Pickler_save st obj = Inr st'" using 1(2) PList by (simp add: save_other)
    from 1(1) [OF e [symmetric] s 1(3,4,5)] show ?thesis .
  qed (use 1(2) in \<open>auto simp: save_other Pickler_save.simps memo_get_def Pickler_write_def\<close>)
next
  case (2 st obj)
  show ?case
  proof (cases "memo_get st obj")
    case (Some k)
    then show ?thesis using 2(2) by (auto simp: Pickler_save.simps Pickler_write_def)
  next
    case None
    show ?thesis
    proof (cases obj)
      case (PList i xs)
      let ?st2 = "Pickler_write (memoize (Pickler_write st [EMPTY_LIST]) i) [MARK]"
      from 2(2) None PList obtain st3 where
        s3: "save_items ?st2 xs = Inr st3" and st': "st' = Pickler_write st3 [APPENDS]"
        by (auto simp: Pickler_save.simps split: sum.splits)
      have f2: "pframe st ?st2"
        by (intro pframe_trans [OF pframe_write pframe_trans [OF pframe_memoize pframe_write]]) simp_all
      have f3: "pframe ?st2 st3" using s3 by (rule pframe_Inr)
      have f4: "pframe st3 st'" unfolding st' by (rule pframe_write) simp
      have e2: "emitted st ?st2 = [EMPTY_LIST, PUT (length (memo st)), MARK]"
        by (simp add: emitted_def Pickler_write_def memoize_def)
      have "emitted st st' = emitted st ?st2 @ emitted ?st2 st3 @ emitted st3 st'"
        using emitted_trans [OF f2 pframe_trans [OF f3 f4]] emitted_trans [OF f3 f4] by simp
      with 2(5) obtain u2 u3 where x2: "exec u (emitted st ?st2) = Inr u2"
        and x3: "exec u2 (emitted ?st2 st3) = Inr u3"
        by (auto simp: exec_append split: sum.splits)
      have p2: "pinv ?st2" using 2(3,4) PList by (simp add: pinv_memoize)
      have pl: "list_all plain xs" using 2(3) PList by simp
      have ss: "same_setup u u2" using x2 by (rule exec_setup)
      have pf: "p_filename ?st2 = p_filename st" using f2 by (simp add: pframe_def)
      have cnt: "npy_counter ?st2 = npy_counter st" "npy_counter st' = npy_counter st3"
        by (simp_all add: st' Pickler_write_def memoize_def)
      from 2(1) [OF None PList s3 pl p2 x3] cnt
      show ?thesis by (simp add: side_file_setup [OF ss pf])
    next
      case (PWrapper i f)
      then show ?thesis using 2(3) by simp
    qed (use None 2(2) in \<open>auto simp: Pickler_save.simps Pickler_write_def memoize_def\<close>)
  qed
next
  case (3 st)
  then show ?case by auto
next
  case (4 st x xs)
  from 4(3) obtain st1 where s1: "save st x = Inr st1" and s2: "save_items st1 xs = Inr st'"
    by (auto split: sum.splits)
  have f1: "pframe st st1" using s1 by (rule pframe_Inr)
  have f2: "pframe st1 st'" using s2 by (rule pframe_Inr)
  have px: "plain x" "list_all plain xs" using 4(4) by simp_all
  have p1: "pinv st1" using s1 px(1) 4(5) by (rule pinv_Inr)
  from 4(6) obtain u1 where x1: "exec u (emitted st st1) = Inr u1"
    and x2: "exec u1 (emitted st1 st') = Inr u'"
    by (auto simp: emitted_trans [OF f1 f2] exec_append split: sum.splits)
  have ss: "same_setup u u1" using x1 by (rule exec_setup)
  have pf: "p_filename st1 = p_filename st" using f1 by (simp add: pframe_def)
  have a: "\<forall>c. npy_counter st < c \<and> c \<le> npy_counter st1 \<longrightarrow> (\<exists>a. side_file u st c = Some (Npy a))"
    using 4(1) [OF s1 px(1) 4(5) x1] .
  have b: "\<forall>c. npy_counter st1 < c \<and> c \<le> npy_counter st' \<longrightarrow> (\<exists>a. side_file u st c = Some (Npy a))"
    using 4(2) [OF s1 s2 px(2) p1 x2] by (simp add: side_file_setup [OF ss pf])
  show ?case
  proof (intro allI impI)
    fix c assume "npy_counter st < c \<and> c \<le> npy_counter st'"
    then show "\<exists>a. side_file u st c = Some (Npy a)"
      using a b by (cases "c \<le> npy_counter st1") auto
  qed
qed

subsection \<open>The read pass rebuilds what the write pass wrote\<close>

lemma index_of_less: "index_of x xs = Some k \<Longrightarrow> k < length xs \<and> xs ! k = x"
  by (induction xs arbitrary: k) (auto split: if_splits)

lemma index_of_append:
  "index_of x (xs @ ys) =
     (case index_of x xs of
        Some k \<Rightarrow> Some k
      | None \<Rightarrow> map_option (\<lambda>k. length xs + k) (index_of x ys))"
proof (induction xs)
  case Nil
  show ?case by (cases "index_of x ys") simp_all
next
  case (Cons a xs)
  then show ?case by (cases "index_of x xs"; cases "index_of x ys") auto
qed

lemma memo_get_less: "memo_get st x = Some k \<Longrightarrow> k < length (memo st)"
  by (auto simp: memo_get_def dest: index_of_less split: option.splits)

lemma memo_get_frame_Some:
  "pframe st st' \<Longrightarrow> memo_get st x = Some k \<Longrightarrow> memo_get st' x = Some k"
  by (auto simp: pframe_def memo_get_def index_of_append split: option.splits)

lemma nodes_self [simp]: "v \<in> set (nodes v)"
  by (cases v) simp_all

lemma nodes_size: "x \<in> set (nodes y) \<Longrightarrow> size x \<le> size y"
proof (induction y)
  case (PList i xs)
  show ?case
  proof (cases "x = PList i xs")
    case True
    then show ?thesis by simp
  next
    case False
    with PList.prems obtain y where y: "y \<in> set xs" "x \<in> set (nodes y)" by auto
    then have "size x \<le> size y" using PList.IH by simp
    moreover have "size y < size (PList i xs)"
      using y(1) by (simp add: size_list_estimation' less_Suc_eq_le)
    ultimately show ?thesis by simp
  qed
qed simp_all

lemma nodes_item_neq:
  "y \<in> set xs \<Longrightarrow> x \<in> set (nodes y) \<Longrightarrow> x \<noteq> PList i xs"
proof
  assume a: "y \<in> set xs" "x \<in> set (nodes y)" "x = PList i xs"
  then have "size (PList i xs) \<le> size y" using nodes_size by blast
  moreover have "size y < size (PList i xs)"
    using a(1) by (simp add: size_list_estimation' less_Suc_eq_le)
  ultimately show False by simp
qed

lemma agree_except_refl [simp]: "agree_except P h h"
  by (simp add: agree_except_def)

lemma stable_represents: "stable P h r v \<Longrightarrow> represents h r v"
  by (simp add: stable_def)

lemma stable_not_mark: "stable P h r v \<Longrightarrow> r \<noteq> SMark"
  by (auto dest: stable_represents)

lemma stable_mono:
  assumes "stable P h r v" and "\<forall>a\<in>P'. a \<in> P \<or> length h \<le> a"
  shows "stable P' (h @ ext) r v"
  unfolding stable_def
proof (intro allI impI)
  fix H assume "agree_except P' (h @ ext) H"
  then have "agree_except P h H"
    using assms(2) by (fastforce simp: agree_except_def nth_append)
  with assms(1) show "represents H r v" by (simp add: stable_def)
qed

lemma stable_finish:
  assumes "stable (insert n P) h r v" and "n < length h"
  shows "stable P (h[n := c]) r v"
  unfolding stable_def
proof (intro allI impI)
  fix H assume "agree_except P (h[n := c]) H"
  then have "agree_except (insert n P) h H"
    by (auto simp: agree_except_def nth_list_update)
  with assms(1) show "represents H r v" by (simp add: stable_def)
qed

lemma pframe_keeps:
  assumes "pframe a b" and "c \<le> npy_counter a"
  shows "fs_read (disk b) (npy_name (p_filename a) c) = fs_read (disk a) (npy_name (p_filename a) c)"
proof -
  have "\<forall>k. npy_counter a < k \<and> k \<le> npy_counter b \<longrightarrow>
          normslash (npy_name (p_filename a) c) \<noteq> normslash (npy_name (p_filename a) k)"
    using assms(2) by (auto dest: normslash_npy_name_inj)
  then show ?thesis using assms(1) by (simp add: pframe_def fs_read_def)
qed

lemma grows_refl [simp]: "grows st u u"
  by (simp add: grows_def)

lemma grows_trans:
  assumes "grows st a b" and "grows st' b c" and "length (memo st) \<le> length (memo st')"
  shows "grows st a c"
  using assms by (auto simp: grows_def intro: same_setup_trans)

lemma plain_caller: "plain x \<Longrightarrow> obj_id x = Some j \<Longrightarrow> is_caller j"
  by (cases x) auto

lemma memo_get_snoc_other:
  "memo st' = memo st @ [i] \<Longrightarrow> obj_id x \<noteq> Some i \<Longrightarrow> memo_get st' x = memo_get st x"
  by (cases "obj_id x") (auto simp: memo_get_def index_of_append split: option.splits)

lemma memo_get_snoc_self:
  "memo st' = memo st @ [i] \<Longrightarrow> obj_id x = Some i \<Longrightarrow> memo_get st x = None \<Longrightarrow>
     memo_get st' x = Some (length (memo st))"
  by (simp add: memo_get_def index_of_append)

lemma memo_get_snoc_pass:
  "plain x \<Longrightarrow> memo st' = memo st @ [Pass c] \<Longrightarrow> memo_get st' x = memo_get st x"
  by (rule memo_get_snoc_other) (auto dest: plain_caller)

lemma memo_get_same: "memo st' = memo st \<Longrightarrow> memo_get st' x = memo_get st x"
  by (cases "obj_id x") (simp_all add: memo_get_def)

lemma stable_atoms [simp]:
  "stable P h SNone PNone" "stable P h (SInt n) (PInt n)" "stable P h (SStr s) (PStr s)"
  by (simp_all add: stable_def)

lemma stable_new_array:
  assumes "\<forall>a\<in>P. a < length h" and "n < length h'" and "length h \<le> n" and "h' ! n = HArray a"
  shows "stable P h' (SRef n) (PArray i a)"
  using assms by (fastforce simp: stable_def agree_except_def)

lemma core_externalized:
  assumes ok: "can_save (np st) (npy_name (p_filename st) (npy_counter st + 1)) a"
    and s: "save st (PArray i a) = Inr st'"
    and r: "ready P st st' u X"
    and pl: "\<forall>x\<in>U. plain x"
  shows "\<exists>r. rebuilt U P st st' u [r] [PArray i a]"
proof -
  let ?c = "npy_counter st + 1"
  let ?f = "os_path_basename (npy_name (p_filename st) ?c)"
  let ?n = "length (heap u)"
  have nm: "Pass ?c \<notin> set (memo st)"
    using r by (auto simp: ready_def pinv_def)
  from save_array_ok [OF ok nm, of i] s
  have c: "npy_counter st' = ?c"
    and m: "memo st' = memo st @ [Pass ?c]"
    and d: "disk st' = fs_write (disk st) (npy_name (p_filename st) ?c) (Npy a)"
    and e: "emitted st st' = [NEWOBJ ''NDArrayWrapper'', PUT (length (memo st)), EMPTY_DICT,
              BINSTRING ''filename'', BINSTRING ?f, SETITEM, BUILD]"
    by (auto simp: emitted_def)
  have "fs_read (disk st') (npy_name (p_filename st) ?c) = Some (Npy a)"
    by (simp add: d fs_read_def fs_write_def update_conv')
  then have "side_file u st ?c = Some (Npy a)"
    using r c by (simp add: ready_def)
  then have l: "np_load (u_disk u) (open_file u ?f) (mmap_mode u) = Inr (HArray a)"
    using r by (simp add: np_load_def side_file_def ready_def)
  let ?u' = "u\<lparr>stack := SRef (?n + 2) # stack u,
               heap := heap u @ [HInst ''NDArrayWrapper'' [(SStr ''filename'', SStr ?f)],
                                 HDict [(SStr ''filename'', SStr ?f)], HArray a],
               u_memo := (u_memo u)(length (memo st) \<mapsto> SRef ?n)\<rparr>"
  have x: "exec u (emitted st st') = Inr ?u'"
    unfolding e exec_placeholder l by simp
  have g: "grows st u ?u'"
    by (simp add: grows_def same_setup_def)
  have st: "stable P (heap ?u') (SRef (?n + 2)) (PArray i a)"
    by (rule stable_new_array [where h = "heap u"])
       (use r in \<open>simp_all add: ready_def nth_append\<close>)
  have mn: "memo_new P st st' ?u' U"
    using pl by (auto simp: memo_new_def memo_get_snoc_pass [OF _ m])
  show ?thesis
    unfolding rebuilt_def using x g st mn by (intro exI [of _ "SRef (?n + 2)"] exI [of _ ?u']) simp
qed

lemma core_memo_hit:
  assumes s: "Pickler_save st v = Inr st'" and h: "memo_get st v = Some k"
    and r: "ready P st st' u X" and v: "v \<in> X"
  shows "\<exists>r. rebuilt U P st st' u [r] [v]"
proof -
  from s h have st': "st' = Pickler_write st [GET k]" by (simp add: Pickler_save.simps)
  from r have "memo_ok P st u X" by (simp add: ready_def)
  with v h have "\<exists>r. u_memo u k = Some r \<and> stable P (heap u) r v"
    unfolding memo_ok_def by blast
  then obtain r where k: "u_memo u k = Some r" and sr: "stable P (heap u) r v" by blast
  have x: "exec u (emitted st st') = Inr (push u r)" by (simp add: st' k)
  have g: "grows st u (push u r)" by (simp add: grows_def push_def same_setup_def)
  have "\<And>x. memo_get st' x = memo_get st x"
    by (rule memo_get_same) (simp add: st' Pickler_write_def)
  then have mn: "memo_new P st st' (push u r) U"
    by (auto simp: memo_new_def)
  show ?thesis
    unfolding rebuilt_def using x g sr mn
    by (intro exI [of _ r] exI [of _ "push u r"]) (simp add: push_def)
qed

lemma core_atom:
  assumes s: "Pickler_save st v = Inr st'" and h: "memo_get st v = None"
    and v: "v = PNone \<or> (\<exists>n. v = PInt n) \<or> (\<exists>t. v = PStr t)"
  shows "\<exists>r. rebuilt U P st st' u [r] [v]"
proof -
  have "\<And>ops x. memo_get (Pickler_write st ops) x = memo_get st x"
    by (rule memo_get_same) (simp add: Pickler_write_def)
  then have mn: "\<And>ops u'. memo_new P st (Pickler_write st ops) u' U"
    by (auto simp: memo_new_def)
  have g: "\<And>r. grows st u (push u r)" by (simp add: grows_def push_def same_setup_def)
  from v consider "v = PNone" | n where "v = PInt n" | t where "v = PStr t" by blast
  then show ?thesis
  proof cases
    case 1
    with s h have st': "st' = Pickler_write st [NONE]" by (simp add: Pickler_save.simps)
    show ?thesis unfolding rebuilt_def st' using mn g 1
      by (intro exI [of _ SNone] exI [of _ "push u SNone"]) (simp add: push_def)
  next
    case 2
    with s h have st': "st' = Pickler_write st [BININT n]" by (simp add: Pickler_save.simps)
    show ?thesis unfolding rebuilt_def st' using mn g 2
      by (intro exI [of _ "SInt n"] exI [of _ "push u (SInt n)"]) (simp add: push_def)
  next
    case 3
    with s h have st': "st' = Pickler_write st [BINSTRING t]" by (simp add: Pickler_save.simps)
    show ?thesis unfolding rebuilt_def st' using mn g 3
      by (intro exI [of _ "SStr t"] exI [of _ "push u (SStr t)"]) (simp add: push_def)
  qed
qed

lemma core_inline_array:
  assumes s: "Pickler_save st (PArray i a) = Inr st'" and h: "memo_get st (PArray i a) = None"
    and r: "ready P st st' u X" and v: "PArray i a \<in> U" and con: "consistent U"
  shows "\<exists>r. rebuilt U P st st' u [r] [PArray i a]"
proof -
  let ?n = "length (heap u)" and ?k = "length (memo st)"
  from s h have st': "st' = Pickler_write (memoize (Pickler_write st [RECONSTRUCT]) i) [ARRSTATE a, BUILD]"
    by (simp add: Pickler_save.simps)
  have m: "memo st' = memo st @ [i]" by (simp add: st' Pickler_write_def memoize_def)
  have e: "emitted st st' = [RECONSTRUCT, PUT ?k, ARRSTATE a, BUILD]"
    by (simp add: st' emitted_def Pickler_write_def memoize_def)
  let ?u' = "u\<lparr>stack := SRef ?n # stack u, heap := heap u @ [HArray a],
               u_memo := (u_memo u)(?k \<mapsto> SRef ?n)\<rparr>"
  have x: "exec u (emitted st st') = Inr ?u'" unfolding e by (rule exec_inline_array)
  have g: "grows st u ?u'" by (simp add: grows_def same_setup_def)
  have sa: "stable P (heap ?u') (SRef ?n) (PArray i a)"
    by (rule stable_new_array [where h = "heap u"]) (use r in \<open>simp_all add: ready_def\<close>)
  have mn: "memo_new P st st' ?u' U"
    unfolding memo_new_def
  proof (intro ballI allI impI)
    fix x k assume xU: "x \<in> U" and a: "memo_get st x = None \<and> memo_get st' x = Some k"
    have id: "obj_id x = Some i"
      using a memo_get_snoc_other [OF m, of x] by (cases "obj_id x = Some i") auto
    then have "x = PArray i a" using con xU v by (auto simp: consistent_def)
    moreover have "k = ?k" using a memo_get_snoc_self [OF m id] by simp
    ultimately show "\<exists>r. u_memo ?u' k = Some r \<and> stable P (heap ?u') r x"
      using sa by simp
  qed
  show ?thesis
    unfolding rebuilt_def using x g sa mn by (intro exI [of _ "SRef ?n"] exI [of _ ?u']) simp
qed

lemma side_file_cong:
  "u_disk u' = u_disk u \<Longrightarrow> u_dirname u' = u_dirname u \<Longrightarrow> p_filename st' = p_filename st \<Longrightarrow>
     side_file u' st' c = side_file u st c"
  by (simp add: side_file_def open_file_def)

lemma ready_head:
  assumes r: "ready P st st' u X" and f1: "pframe st st1" and f2: "pframe st1 st'"
    and sub: "X1 \<subseteq> X"
  shows "ready P st st1 u X1"
proof -
  have pf: "p_filename st1 = p_filename st" using f1 by (simp add: pframe_def)
  have le: "npy_counter st1 \<le> npy_counter st'" using f2 by (simp add: pframe_def)
  have files: "side_file u st c = fs_read (disk st1) (npy_name (p_filename st) c)"
    if "npy_counter st < c" "c \<le> npy_counter st1" for c
  proof -
    have "side_file u st c = fs_read (disk st') (npy_name (p_filename st) c)"
      using r that le by (simp add: ready_def)
    also have "\<dots> = fs_read (disk st1) (npy_name (p_filename st) c)"
      using pframe_keeps [OF f2 that(2)] by (simp add: pf)
    finally show ?thesis .
  qed
  have "memo_ok P st u X1" using r sub by (auto simp: ready_def memo_ok_def)
  then show ?thesis using r files by (simp add: ready_def)
qed

lemma ready_tail:
  assumes r: "ready P st st' u X" and f1: "pframe st st1" and p1: "pinv st1"
    and g: "grows st u u1" and mn: "memo_new P st st1 u1 U"
    and sub: "X2 \<subseteq> X" "X2 \<subseteq> U"
  shows "ready P st1 st' u1 X2"
proof -
  from g obtain hnew where h: "heap u1 = heap u @ hnew" by (auto simp: grows_def)
  have su: "same_setup u u1" using g by (simp add: grows_def)
  have pf: "p_filename st1 = p_filename st" using f1 by (simp add: pframe_def)
  have le: "npy_counter st \<le> npy_counter st1" using f1 by (simp add: pframe_def)
  have P: "\<forall>a\<in>P. a < length (heap u)" using r by (simp add: ready_def)
  have mo: "memo_ok P st1 u1 X2"
    unfolding memo_ok_def
  proof (intro ballI allI impI)
    fix x k assume x: "x \<in> X2" and k: "memo_get st1 x = Some k"
    show "\<exists>r. u_memo u1 k = Some r \<and> stable P (heap u1) r x"
    proof (cases "memo_get st x")
      case None
      with mn x sub(2) k show ?thesis by (auto simp: memo_new_def)
    next
      case (Some k')
      then have "memo_get st1 x = Some k'" using f1 by (rule memo_get_frame_Some [rotated])
      with k have kk: "k' = k" by simp
      from r x sub(1) Some obtain r0 where r0: "u_memo u k' = Some r0" "stable P (heap u) r0 x"
        unfolding ready_def memo_ok_def by blast
      have "k' < length (memo st)" using Some by (rule memo_get_less)
      then have "u_memo u1 k' = u_memo u k'" using g by (simp add: grows_def)
      moreover have "stable P (heap u1) r0 x"
        unfolding h by (rule stable_mono [OF r0(2)]) simp
      ultimately show ?thesis using r0(1) kk by auto
    qed
  qed
  have files: "side_file u1 st1 c = fs_read (disk st') (npy_name (p_filename st1) c)"
    if "npy_counter st1 < c" "c \<le> npy_counter st'" for c
  proof -
    have "side_file u1 st1 c = side_file u st c"
      using su pf by (simp add: side_file_def open_file_def same_setup_def)
    then show ?thesis using r that le by (simp add: ready_def pf)
  qed
  have "mmap_mode u1 = None" using r su by (simp add: ready_def same_setup_def)
  moreover have "\<forall>a\<in>P. a < length (heap u1)" using P h by auto
  ultimately show ?thesis using p1 mo files by (simp add: ready_def)
qed

lemma rebuilt_combine:
  assumes a: "rebuilt U P st st1 u rs1 xs1"
    and b: "\<And>u1. exec u (emitted st st1) = Inr u1 \<Longrightarrow> grows st u u1 \<Longrightarrow>
               memo_new P st st1 u1 U \<Longrightarrow> rebuilt U P st1 st' u1 rs2 xs2"
    and f1: "pframe st st1" and f2: "pframe st1 st'"
  shows "rebuilt U P st st' u (rs1 @ rs2) (xs1 @ xs2)"
proof -
  from a obtain u1 where x1: "exec u (emitted st st1) = Inr u1"
    and s1: "stack u1 = rev rs1 @ stack u" and g1: "grows st u u1"
    and l1: "list_all2 (stable P (heap u1)) rs1 xs1" and m1: "memo_new P st st1 u1 U"
    unfolding rebuilt_def by blast
  from b [OF x1 g1 m1] obtain u2 where x2: "exec u1 (emitted st1 st') = Inr u2"
    and s2: "stack u2 = rev rs2 @ stack u1" and g2: "grows st1 u1 u2"
    and l2: "list_all2 (stable P (heap u2)) rs2 xs2" and m2: "memo_new P st1 st' u2 U"
    unfolding rebuilt_def by blast
  from g2 obtain hnew where h: "heap u2 = heap u1 @ hnew" by (auto simp: grows_def)
  have len: "length (memo st) \<le> length (memo st1)" using f1 by (auto simp: pframe_def)
  have x: "exec u (emitted st st') = Inr u2"
    by (simp add: emitted_trans [OF f1 f2] exec_append x1 x2)
  have s: "stack u2 = rev (rs1 @ rs2) @ stack u" by (simp add: s1 s2)
  have g: "grows st u u2" using g1 g2 len by (rule grows_trans)
  have "list_all2 (stable P (heap u2)) rs1 xs1"
    using l1 unfolding h
    by (rule list_all2_mono) (rule stable_mono, assumption, blast)
  then have l: "list_all2 (stable P (heap u2)) (rs1 @ rs2) (xs1 @ xs2)"
    using l2 by (rule list_all2_appendI)
  have m: "memo_new P st st' u2 U"
    unfolding memo_new_def
  proof (intro ballI allI impI)
    fix x k assume x: "x \<in> U" and k: "memo_get st x = None \<and> memo_get st' x = Some k"
    show "\<exists>r. u_memo u2 k = Some r \<and> stable P (heap u2) r x"
    proof (cases "memo_get st1 x")
      case None
      with m2 x k show ?thesis by (auto simp: memo_new_def)
    next
      case (Some k1)
      then have "memo_get st' x = Some k1" using f2 by (rule memo_get_frame_Some [rotated])
      with k have kk: "k1 = k" by simp
      from m1 x k Some obtain r0 where r0: "u_memo u1 k1 = Some r0" "stable P (heap u1) r0 x"
        unfolding memo_new_def by blast
      have "k1 < length (memo st1)" using Some by (rule memo_get_less)
      then have "u_memo u2 k1 = u_memo u1 k1" using g2 by (simp add: grows_def)
      moreover have "stable P (heap u2) r0 x"
        unfolding h by (rule stable_mono [OF r0(2)]) simp
      ultimately show ?thesis using r0(1) kk by auto
    qed
  qed
  show ?thesis unfolding rebuilt_def using x s g l m by blast
qed

lemma list_opened_simps:
  "memo (list_opened st i) = memo st @ [i]"
  "npy_counter (list_opened st i) = npy_counter st"
  "p_filename (list_opened st i) = p_filename st"
  "emitted st (list_opened st i) = [EMPTY_LIST, PUT (length (memo st)), MARK]"
  by (simp_all add: list_opened_def Pickler_write_def memoize_def emitted_def)

lemma list_opened_frame: "pframe st (list_opened st i)"
  unfolding list_opened_def
  by (intro pframe_trans [OF pframe_write pframe_trans [OF pframe_memoize pframe_write]]) simp_all

lemma exec_list_started:
  "exec u (emitted st (list_opened st i)) = Inr (list_started st u)"
  by (simp only: list_opened_simps exec_list_start list_started_def)

lemma ready_items:
  assumes r: "ready P st st' u (set (nodes (PList i xs)))"
    and h: "memo_get st (PList i xs) = None"
    and U: "set (nodes (PList i xs)) \<subseteq> U" "consistent U" "\<forall>x\<in>U. plain x"
    and st': "st' = Pickler_write st3 [APPENDS]"
  shows "ready (insert (length (heap u)) P) (list_opened st i) st3 (list_started st u)
           (\<Union>x\<in>set xs. set (nodes x))"
proof -
  let ?n = "length (heap u)" and ?st2 = "list_opened st i" and ?u2 = "list_started st u"
  have LU: "PList i xs \<in> U" using U(1) by simp
  then have ci: "is_caller i" using U(3) by auto
  have p2: "pinv ?st2"
    using r ci by (simp add: ready_def list_opened_def pinv_memoize)
  have mo: "memo_ok (insert ?n P) ?st2 ?u2 (\<Union>x\<in>set xs. set (nodes x))"
    unfolding memo_ok_def
  proof (intro ballI allI impI)
    fix x k assume x: "x \<in> (\<Union>x\<in>set xs. set (nodes x))" and k: "memo_get ?st2 x = Some k"
    from x obtain y where y: "y \<in> set xs" "x \<in> set (nodes y)" by auto
    have xn: "x \<in> set (nodes (PList i xs))" using y by auto
    then have xU: "x \<in> U" using U(1) by auto
    have ne: "x \<noteq> PList i xs" using y by (rule nodes_item_neq)
    have "obj_id x \<noteq> Some i"
    proof
      assume "obj_id x = Some i"
      then have "x = PList i xs" using U(2) xU LU by (auto simp: consistent_def)
      with ne show False by simp
    qed
    then have "memo_get ?st2 x = memo_get st x"
      by (rule memo_get_snoc_other [OF list_opened_simps(1)])
    with k have k0: "memo_get st x = Some k" by simp
    from r xn k0 obtain r0 where r0: "u_memo u k = Some r0" "stable P (heap u) r0 x"
      unfolding ready_def memo_ok_def by blast
    have "k < length (memo st)" using k0 by (rule memo_get_less)
    then have "u_memo ?u2 k = Some r0" using r0(1) by (simp add: list_started_def)
    moreover have "stable (insert ?n P) (heap u @ [HList []]) r0 x"
      by (rule stable_mono [OF r0(2)]) auto
    ultimately show "\<exists>r. u_memo ?u2 k = Some r \<and> stable (insert ?n P) (heap ?u2) r x"
      by (simp add: list_started_def)
  qed
  have files: "side_file ?u2 ?st2 c = fs_read (disk st3) (npy_name (p_filename ?st2) c)"
    if "npy_counter ?st2 < c" "c \<le> npy_counter st3" for c
  proof -
    have "side_file ?u2 ?st2 c = side_file u st c"
      by (simp add: side_file_def open_file_def list_started_def list_opened_simps)
    then show ?thesis using r that
      by (simp add: ready_def st' Pickler_write_def list_opened_simps)
  qed
  have "mmap_mode ?u2 = None" using r by (simp add: ready_def list_started_def)
  moreover have "\<forall>a\<in>insert ?n P. a < length (heap ?u2)"
    using r by (auto simp: ready_def list_started_def)
  ultimately show ?thesis using p2 mo files by (simp add: ready_def)
qed

lemma list_all2_not_mark:
  "list_all2 (stable P h) rs xs \<Longrightarrow> SMark \<notin> set rs"
  by (induction rs xs rule: list_all2_induct) (auto dest: stable_not_mark)

lemma rebuilt_list:
  assumes a: "rebuilt U (insert (length (heap u)) P) (list_opened st i) st3 (list_started st u) rs xs"
    and h: "memo_get st (PList i xs) = None"
    and f3: "pframe (list_opened st i) st3"
    and st': "st' = Pickler_write st3 [APPENDS]"
    and LU: "PList i xs \<in> U" and con: "consistent U"
    and P: "\<forall>a\<in>P. a < length (heap u)"
  shows "rebuilt U P st st' u [SRef (length (heap u))] [PList i xs]"
proof -
  let ?n = "length (heap u)" and ?st2 = "list_opened st i" and ?u2 = "list_started st u"
  let ?k = "length (memo st)"
  from a obtain u3 where x3: "exec ?u2 (emitted ?st2 st3) = Inr u3"
    and s3: "stack u3 = rev rs @ stack ?u2" and g3: "grows ?st2 ?u2 u3"
    and l3: "list_all2 (stable (insert ?n P) (heap u3)) rs xs"
    and m3: "memo_new (insert ?n P) ?st2 st3 u3 U"
    unfolding rebuilt_def by blast
  from g3 obtain hnew where h3: "heap u3 = heap u @ HList [] # hnew"
    by (auto simp: grows_def list_started_def)
  have su3: "same_setup u u3" using g3 by (simp add: grows_def same_setup_def list_started_def)
  have km: "\<And>k. k \<le> ?k \<Longrightarrow> u_memo u3 k = u_memo ?u2 k"
    using g3 by (simp add: grows_def list_opened_simps)
  have f4: "pframe st3 st'" unfolding st' by (rule pframe_write) simp
  have nP: "?n \<notin> P" using P by auto
  let ?u4 = "u3\<lparr>stack := SRef ?n # stack u, heap := (heap u3)[?n := HList ([] @ rs)]\<rparr>"
  have x4: "exec u3 [APPENDS] = Inr ?u4"
    by (rule exec_appends)
       (use s3 l3 in \<open>auto simp: list_started_def h3 dest: list_all2_not_mark\<close>)
  have e: "emitted st st' = emitted st ?st2 @ emitted ?st2 st3 @ [APPENDS]"
    using emitted_trans [OF list_opened_frame pframe_trans [OF f3 f4]]
      emitted_trans [OF f3 f4]
    by (simp add: st')
  have x: "exec u (emitted st st') = Inr ?u4"
    unfolding e by (simp only: exec_append exec_list_started x3 x4 sum.case)
  have h4: "heap ?u4 = heap u @ HList rs # hnew"
    by (simp add: h3 list_update_append)
  have g: "grows st u ?u4"
    unfolding grows_def
  proof (intro conjI allI impI)
    show "same_setup u ?u4" using su3 by (simp add: same_setup_def)
    show "\<exists>hnew. heap ?u4 = heap u @ hnew" using h4 by blast
    fix k assume "k < ?k"
    then show "u_memo ?u4 k = u_memo u k" using km [of k] by (simp add: list_started_def)
  qed
  have fin: "stable P (heap ?u4) r x" if "stable (insert ?n P) (heap u3) r x" for r x
    using stable_finish [OF that, of "HList ([] @ rs)"] by (simp add: h3)
  have sl: "stable P (heap ?u4) (SRef ?n) (PList i xs)"
    unfolding stable_def
  proof (intro allI impI)
    fix H assume H: "agree_except P (heap ?u4) H"
    have H': "agree_except P (heap u @ HList rs # hnew) H"
      using H by (simp add: h3 list_update_append)
    then have "length (heap u @ HList rs # hnew) \<le> length H"
      and "?n < length (heap u @ HList rs # hnew) \<longrightarrow> ?n \<notin> P \<longrightarrow>
           H ! ?n = (heap u @ HList rs # hnew) ! ?n"
      unfolding agree_except_def by blast+
    then have n: "?n < length H" "H ! ?n = HList rs"
      using nP by simp_all
    have "list_all2 (represents H) rs xs"
      using l3
    proof (rule list_all2_mono)
      fix r x assume "stable (insert ?n P) (heap u3) r x"
      then have "stable P (heap ?u4) r x" by (rule fin)
      with H show "represents H r x" by (simp add: stable_def)
    qed
    with n show "represents H (SRef ?n) (PList i xs)" by simp
  qed
  have m: "memo_new P st st' ?u4 U"
    unfolding memo_new_def
  proof (intro ballI allI impI)
    fix x k assume x: "x \<in> U" and k: "memo_get st x = None \<and> memo_get st' x = Some k"
    have "memo_get st' x = memo_get st3 x"
      by (rule memo_get_same) (simp add: st' Pickler_write_def)
    with k have k3: "memo_get st3 x = Some k" by simp
    show "\<exists>r. u_memo ?u4 k = Some r \<and> stable P (heap ?u4) r x"
    proof (cases "obj_id x = Some i")
      case True
      then have xl: "x = PList i xs" using con x LU by (auto simp: consistent_def)
      have "memo_get ?st2 x = Some ?k"
        using True k by (intro memo_get_snoc_self [OF list_opened_simps(1)]) simp_all
      then have "memo_get st3 x = Some ?k" using f3 by (rule memo_get_frame_Some [rotated])
      with k3 have "k = ?k" by simp
      moreover have "u_memo ?u4 ?k = Some (SRef ?n)"
        using km [of ?k] by (simp add: list_started_def)
      ultimately show ?thesis using sl xl by simp
    next
      case False
      then have "memo_get ?st2 x = memo_get st x"
        by (rule memo_get_snoc_other [OF list_opened_simps(1)])
      with k have "memo_get ?st2 x = None" by simp
      with m3 x k3 obtain r where "u_memo u3 k = Some r" "stable (insert ?n P) (heap u3) r x"
        unfolding memo_new_def by blast
      then show ?thesis using fin by auto
    qed
  qed
  show ?thesis
    unfolding rebuilt_def using x g sl m by (intro exI [of _ ?u4]) simp
qed

lemma memo_get_filenames [simp]: "memo_get (st\<lparr>p_filenames := fs\<rparr>) x = memo_get st x"
  by (rule memo_get_same) simp

lemma ready_filenames [simp]:
  "ready P (st\<lparr>p_filenames := fs\<rparr>) st' u X = ready P st st' u X"
  by (simp add: ready_def memo_ok_def side_file_def)

lemma rebuilt_filenames [simp]:
  "rebuilt U P (st\<lparr>p_filenames := fs\<rparr>) st' u rs xs = rebuilt U P st st' u rs xs"
  by (simp add: rebuilt_def emitted_def grows_def memo_new_def)

lemma rebuilt_Nil: "rebuilt U P st st u [] []"
  by (auto simp: rebuilt_def memo_new_def)

lemma core:
  assumes con: "consistent U" and pl: "\<forall>x\<in>U. plain x"
  shows
    "save st v = Inr st' \<Longrightarrow> set (nodes v) \<subseteq> U \<Longrightarrow> ready P st st' u (set (nodes v)) \<Longrightarrow>
       \<exists>r. rebuilt U P st st' u [r] [v]"
    "Pickler_save st v = Inr st' \<Longrightarrow> set (nodes v) \<subseteq> U \<Longrightarrow> ready P st st' u (set (nodes v)) \<Longrightarrow>
       \<exists>r. rebuilt U P st st' u [r] [v]"
    "save_items st xs = Inr st' \<Longrightarrow> (\<Union>x\<in>set xs. set (nodes x)) \<subseteq> U \<Longrightarrow>
       ready P st st' u (\<Union>x\<in>set xs. set (nodes x)) \<Longrightarrow>
       \<exists>rs. rebuilt U P st st' u rs xs"
proof (induction st v and st v and st xs arbitrary: st' u P and st' u P and st' u P
       rule: save_Pickler_save_save_items.induct)
  case (1 st obj)
  show ?case
  proof (cases "isinstance_ndarray obj")
    case False
    then have e: "externalize st obj = (st, obj)" by (cases obj) simp_all
    have s: "Pickler_save st obj = Inr st'" using 1(2) False by (simp add: save_other)
    from 1(1) [OF e [symmetric] s 1(3,4)] show ?thesis .
  next
    case True
    then obtain i a where obj: "obj = PArray i a" by (cases obj) auto
    show ?thesis
    proof (cases "can_save (np st) (npy_name (p_filename st) (npy_counter st + 1)) a")
      case True
      from core_externalized [OF True 1(2) [unfolded obj] 1(4) pl] show ?thesis
        by (simp add: obj)
    next
      case False
      let ?st = "st\<lparr>p_filenames := p_filenames st @ [npy_name (p_filename st) (npy_counter st + 1)]\<rparr>"
      have e: "externalize st obj = (?st, obj)"
        using False obj by (simp add: Let_def np_save_def)
      have s: "Pickler_save ?st obj = Inr st'"
        using 1(2) False obj by (simp add: save_array_fail)
      have r: "ready P ?st st' u (set (nodes obj))" using 1(4) by simp
      from 1(1) [OF e [symmetric] s 1(3) r] show ?thesis by simp
    qed
  qed
next
  case (2 st obj)
  have oU: "obj \<in> U" using 2(3) nodes_self by blast
  show ?case
  proof (cases "memo_get st obj")
    case (Some k)
    show ?thesis by (rule core_memo_hit [OF 2(2) Some 2(4)]) simp
  next
    case None
    show ?thesis
    proof (cases obj)
      case PNone
      then show ?thesis using core_atom [OF 2(2) None] by simp
    next
      case (PInt n)
      then show ?thesis using core_atom [OF 2(2) None] by simp
    next
      case (PStr t)
      then show ?thesis using core_atom [OF 2(2) None] by simp
    next
      case (PArray i a)
      show ?thesis
        unfolding PArray
        by (rule core_inline_array [OF 2(2) [unfolded PArray] None [unfolded PArray]
              2(4) oU [unfolded PArray] con])
    next
      case (PWrapper i f)
      then show ?thesis using pl oU by auto
    next
      case PUnpicklable
      then show ?thesis using 2(2) None by (simp add: Pickler_save.simps)
    next
      case (PList i xs)
      from 2(2) None PList obtain st3 where
        s3: "save_items (list_opened st i) xs = Inr st3"
        and st': "st' = Pickler_write st3 [APPENDS]"
        by (auto simp: Pickler_save.simps list_opened_def split: sum.splits)
      have sub: "(\<Union>x\<in>set xs. set (nodes x)) \<subseteq> U" using 2(3) PList by auto
      have r: "ready (insert (length (heap u)) P) (list_opened st i) st3 (list_started st u)
                 (\<Union>x\<in>set xs. set (nodes x))"
        by (rule ready_items [OF 2(4) [unfolded PList] None [unfolded PList]
              2(3) [unfolded PList] con pl st'])
      from 2(1) [folded list_opened_def, OF None PList s3 sub r]
      obtain rs where rs:
        "rebuilt U (insert (length (heap u)) P) (list_opened st i) st3 (list_started st u) rs xs"
        by blast
      have f3: "pframe (list_opened st i) st3" using s3 by (rule pframe_Inr)
      have P: "\<forall>a\<in>P. a < length (heap u)" using 2(4) by (simp add: ready_def)
      from rebuilt_list [OF rs None [unfolded PList] f3 st' oU [unfolded PList] con P]
      show ?thesis unfolding PList by blast
    qed
  qed
next
  case (3 st)
  then have "st' = st" by simp
  then show ?case using rebuilt_Nil [of U P st u] by blast
next
  case (4 st x xs)
  from 4(3) obtain st1 where s1: "save st x = Inr st1" and s2: "save_items st1 xs = Inr st'"
    by (auto split: sum.splits)
  have f1: "pframe st st1" using s1 by (rule pframe_Inr)
  have f2: "pframe st1 st'" using s2 by (rule pframe_Inr)
  let ?X = "\<Union>y\<in>set (x # xs). set (nodes y)"
  have subx: "set (nodes x) \<subseteq> U" and subxs: "(\<Union>y\<in>set xs. set (nodes y)) \<subseteq> U"
    using 4(4) by auto
  have "x \<in> U" using subx nodes_self by blast
  then have px: "plain x" using pl by simp
  have p0: "pinv st" using 4(5) by (simp add: ready_def)
  have p1: "pinv st1" using s1 px p0 by (rule pinv_Inr)
  have r1: "ready P st st1 u (set (nodes x))"
    by (rule ready_head [OF 4(5) f1 f2]) auto
  from 4(1) [OF s1 subx r1] obtain r where a: "rebuilt U P st st1 u [r] [x]" by blast
  then obtain u1 where x1: "exec u (emitted st st1) = Inr u1"
    and g1: "grows st u u1" and m1: "memo_new P st st1 u1 U"
    unfolding rebuilt_def by blast
  have r2: "ready P st1 st' u1 (\<Union>y\<in>set xs. set (nodes y))"
    by (rule ready_tail [OF 4(5) f1 p1 g1 m1 _ subxs]) auto
  from 4(2) [OF s1 s2 subxs r2] obtain rs where b: "rebuilt U P st1 st' u1 rs xs" by blast
  have "rebuilt U P st st' u ([r] @ rs) ([x] @ xs)"
  proof (rule rebuilt_combine [OF a _ f1 f2])
    fix u1' assume "exec u (emitted st st1) = Inr u1'"
    with x1 have "u1' = u1" by simp
    with b show "rebuilt U P st1 st' u1' rs xs" by simp
  qed
  then show ?case by auto
qed

subsection \<open>A write pass followed by a read pass\<close>

lemma plain_nodes: "plain v \<Longrightarrow> x \<in> set (nodes v) \<Longrightarrow> plain x"
proof (induction v)
  case (PList i xs)
  then show ?case by (auto simp: list_all_iff)
qed auto

lemma fs_read_opened [simp]: "fs_read (fs\<lparr>opened := os\<rparr>) q = fs_read fs q"
  by (simp add: fs_read_def)

lemma fs_read_normslash: "normslash q = normslash q' \<Longrightarrow> fs_read fs q = fs_read fs q'"
  by (simp add: fs_read_def)

lemma load_at:
  assumes "fs_read fs p = Some (Pickle ops)"
  shows "fst (load fs p mode) = run (unpickler_for fs p mode ops) ops"
proof -
  have "fs_read fs (os_path_join (os_path_dirname p) (os_path_basename p)) = Some (Pickle ops)"
    using assms fs_read_normslash [OF join_dirname_basename [of p]] by simp
  then show ?thesis
    by (simp add: load_def NumpyUnpickler_init_def open_rb_def Let_def Unpickler_load_def
          unpickler_for_def)
qed

lemma dump_pass:
  assumes "dump m fs v p = (Inr manifest, fs1)"
  shows "\<exists>st1 st'. save st1 v = Inr st' \<and>
           written st1 = [PROTO 2] \<and> memo st1 = [] \<and> npy_counter st1 = 0 \<and>
           p_filename st1 = p \<and> pinv st1 \<and>
           fs_read fs1 p = Some (Pickle (PROTO 2 # emitted st1 st' @ [STOP])) \<and>
           (\<forall>c. fs_read fs1 (npy_name p c) = fs_read (disk st') (npy_name p c)) \<and>
           manifest = p_filenames st'"
proof -
  from dump_Inr [OF assms] obtain st0 st' where
    i: "NumpyPickler_init m fs p = Inr st0" and
    s: "save (Pickler_write st0 [PROTO 2]) v = Inr st'" and
    mf: "manifest = p_filenames st'" and
    fs1: "fs1 = close_file (fs_write (disk st') p (Pickle (written st' @ [STOP]))) p"
    by blast
  let ?st1 = "Pickler_write st0 [PROTO 2]"
  note st0 = init_Inr [OF i]
  have a: "written ?st1 = [PROTO 2]" "memo ?st1 = []" "npy_counter ?st1 = 0" "p_filename ?st1 = p"
    using st0 by (simp_all add: Pickler_write_def)
  then have pi: "pinv ?st1" by (simp add: pinv_def)
  have fr: "pframe ?st1 st'" using s by (rule pframe_Inr)
  have w: "written st' = PROTO 2 # emitted ?st1 st'"
    using pframe_written [OF fr] a(1) by simp
  have main: "fs_read fs1 p = Some (Pickle (PROTO 2 # emitted ?st1 st' @ [STOP]))"
    by (simp add: fs1 w fs_read_def fs_write_def close_file_def update_conv')
  have side: "fs_read fs1 (npy_name p c) = fs_read (disk st') (npy_name p c)" for c
    using normslash_npy_name_neq [of p c]
    by (simp add: fs1 fs_read_def fs_write_def close_file_def update_conv')
  show ?thesis using s a pi main side mf by blast
qed

lemma pass_counter:
  assumes "save st1 v = Inr st'" and "plain v" and "pinv st1"
    and "written st1 = [PROTO 2]" and "npy_counter st1 = 0"
  shows "npy_counter st' = int (placeholders (PROTO 2 # emitted st1 st' @ [STOP]))"
proof -
  have "balance st' = balance st1"
    using pinv_balance_save(1) [OF assms(2,3)] assms(1) by simp
  moreover have "balance st1 = 0"
    using assms(4,5) by (simp add: balance_def placeholders_def)
  moreover have "written st' = PROTO 2 # emitted st1 st'"
    using pframe_written [OF pframe_Inr(1) [OF assms(1)]] assms(4) by simp
  ultimately show ?thesis by (simp add: balance_def placeholders_def)
qed

lemma run_stream:
  assumes "STOP \<notin> set code" and "exec u code = Inr u'" and "stack u' = r # S"
  shows "run u (PROTO 2 # code @ [STOP]) = Inr (heap u', r)"
  using assms by (simp add: run_append)

lemma roundtrip_core:
  assumes d: "dump m fs v p = (Inr manifest, fs1)"
    and pl: "plain v" and con: "consistent (set (nodes v))"
    and stream: "fs_read fs1 p = Some (Pickle stream)"
    and main: "fs_read fs2 p' = fs_read fs1 p"
    and side: "\<forall>c. 1 \<le> c \<and> c \<le> int (placeholders stream) \<longrightarrow>
                 fs_read fs2 (os_path_join (os_path_dirname p') (os_path_basename (npy_name p c))) =
                 fs_read fs1 (npy_name p c)"
  shows "\<exists>h r. fst (load fs2 p' None) = Inr (h, r) \<and> represents h r v"
proof -
  from dump_pass [OF d] obtain st1 st' where
    s: "save st1 v = Inr st'" and
    a: "written st1 = [PROTO 2]" "memo st1 = []" "npy_counter st1 = 0" "p_filename st1 = p" and
    pi: "pinv st1" and
    m: "fs_read fs1 p = Some (Pickle (PROTO 2 # emitted st1 st' @ [STOP]))" and
    sd: "\<forall>c. fs_read fs1 (npy_name p c) = fs_read (disk st') (npy_name p c)"
    by blast
  let ?code = "emitted st1 st'"
  have st: "stream = PROTO 2 # ?code @ [STOP]" using stream m by simp
  have n: "npy_counter st' = int (placeholders stream)"
    unfolding st by (rule pass_counter [OF s pl pi a(1,3)])
  let ?u = "unpickler_for fs2 p' None stream"
  let ?U = "set (nodes v)"
  have plU: "\<forall>x\<in>?U. plain x" using pl plain_nodes by blast
  have files: "side_file ?u st1 c = fs_read (disk st') (npy_name (p_filename st1) c)"
    if "npy_counter st1 < c" "c \<le> npy_counter st'" for c
    using that side sd a n by (simp add: side_file_def open_file_def unpickler_for_def)
  have mo: "memo_ok {} st1 ?u ?U"
    using a(2) by (auto simp: memo_ok_def memo_get_def split: option.splits)
  have r: "ready {} st1 st' ?u ?U"
    using pi mo files by (simp add: ready_def unpickler_for_def)
  from core(1) [OF con plU s _ r] obtain r0 where "rebuilt ?U {} st1 st' ?u [r0] [v]" by blast
  then obtain u' where x: "exec ?u ?code = Inr u'" and sk: "stack u' = [r0]"
    and sb: "stable {} (heap u') r0 v"
    by (auto simp: rebuilt_def unpickler_for_def)
  have ns: "STOP \<notin> set ?code"
    using pframe_Inr(1) [OF s] by (auto simp: pframe_def emitted_def)
  have "fst (load fs2 p' None) = run ?u stream"
    by (rule load_at) (simp add: main stream)
  also have "\<dots> = Inr (heap u', r0)"
    unfolding st [symmetric] using run_stream [OF ns x sk] by (simp add: st)
  finally show ?thesis using stable_represents [OF sb] by blast
qed

subsection \<open>The archive\<close>

lemma no_trace_rmtree [simp]: "no_trace (rmtree fs d) d"
  by (auto simp: no_trace_def rmtree_def)

lemma no_trace_close [simp]: "no_trace (close_file fs f) d = no_trace fs d"
  by (simp add: no_trace_def close_file_def)

lemma dumpz_no_temp:
  "ZipFile_w fs filename = Inl e \<Longrightarrow> dumpz m z name fs v filename = (Inl e, fs)"
  "ZipFile_w fs filename = Inr fs1 \<Longrightarrow>
     mkdtemp fs1 name ''joblib-'' (os_path_dirname filename) = Inl e \<Longrightarrow>
     dumpz m z name fs v filename = (Inl e, fs1) \<and> dirs fs1 = dirs fs"
  by (auto simp: dumpz_def ZipFile_w_def fs_write_def split: if_splits)

lemma loadz_no_temp:
  "ZipFile_r fs filename = Inl e \<Longrightarrow> loadz z name fs filename = (Inl e, fs)"
  "ZipFile_r fs filename = Inr fs1 \<Longrightarrow>
     mkdtemp fs1 name ''joblib-'' (os_path_dirname filename) = Inl e \<Longrightarrow>
     loadz z name fs filename = (Inl e, fs1) \<and> dirs fs1 = dirs fs"
  by (auto simp: loadz_def ZipFile_r_def split: option.splits fcontent.splits)

subsection \<open>C7: placeholder resolution keeps the stack discipline\<close>

text \<open>
  C7. Relative to the stack that the base class's \<open>load_build\<close> leaves,
  \<open>NumpyUnpickler.load_build\<close> keeps the length of the stack and everything below the
  top. When the top is an \<open>NDArrayWrapper\<close> it pops that one slot and pushes one
  reference, to the array that \<open>np.load\<close> returned for the wrapper's file name; when
  the top is anything else the state is left as the base class left it.
\<close>

theorem load_build_stack_discipline:
  assumes "Unpickler_load_build u = Inr u1" and "load_build u = Inr u'"
  shows "\<exists>v rest. stack u1 = v # rest \<and>
           length (stack u') = length (stack u1) \<and>
           tl (stack u') = rest \<and>
           (if isinstance_NDArrayWrapper u1 v
            then \<exists>f array.
                   wrapper_filename u1 v = Inr f \<and>
                   np_load (u_disk u1) (open_file u1 f) (mmap_mode u1) = Inr array \<and>
                   u' = u1\<lparr>stack := SRef (length (heap u1)) # rest, heap := heap u1 @ [array]\<rparr>
            else u' = u1)"
proof (cases "stack u1")
  case Nil
  with assms show ?thesis by (simp add: load_build_def)
next
  case (Cons v rest)
  show ?thesis
  proof (cases "isinstance_NDArrayWrapper u1 v")
    case False
    with assms Cons show ?thesis by (simp add: load_build_def)
  next
    case True
    with assms Cons show ?thesis
      by (auto simp: load_build_def Let_def alloc_def open_file_def split: sum.splits)
  qed
qed

theorem load_build_stack_discipline_witness:
  "\<exists>v rest. stack ex_build_base = v # rest \<and>
     length (stack ex_build_after) = length (stack ex_build_base) \<and>
     tl (stack ex_build_after) = rest \<and>
     (if isinstance_NDArrayWrapper ex_build_base v
      then \<exists>f array.
             wrapper_filename ex_build_base v = Inr f \<and>
             np_load (u_disk ex_build_base) (open_file ex_build_base f)
               (mmap_mode ex_build_base) = Inr array \<and>
             ex_build_after =
               ex_build_base\<lparr>stack := SRef (length (heap ex_build_base)) # rest,
                              heap := heap ex_build_base @ [array]\<rparr>
      else ex_build_after = ex_build_base)"
  using load_build_stack_discipline [OF ex_build_base_eq ex_build_after_eq] .

subsection \<open>C4: the side files are numbered without gaps\<close>

text \<open>
  C4. After a write pass over a graph of the caller's objects that returns normally, let
  \<open>N\<close> be the number of placeholders in the main stream, one for every array that was
  externalized successfully. Then each of the side files \<open>p_01.npy\<close> ... \<open>p_N.npy\<close>
  (the name of the main stream, an underscore, the counter with at least two digits,
  and \<open>.npy\<close>) holds an array, and apart from the main stream itself no other path
  of the file system has changed, however many calls of \<open>np.save\<close> failed. Different
  counters give different files (\<open>normslash_npy_name_inj\<close>).
\<close>

theorem side_files_dense:
  assumes "dump m fs v p = (Inr manifest, fs')" and "plain v"
  shows "\<exists>stream. fs_read fs' p = Some (Pickle stream) \<and>
           (\<forall>c. 1 \<le> c \<and> c \<le> int (placeholders stream) \<longrightarrow>
                (\<exists>a. fs_read fs' (npy_name p c) = Some (Npy a))) \<and>
           (\<forall>q. q \<noteq> normslash p \<and>
                (\<forall>c. 1 \<le> c \<and> c \<le> int (placeholders stream) \<longrightarrow> q \<noteq> normslash (npy_name p c))
                \<longrightarrow> map_of (files fs') q = map_of (files fs) q)"
proof -
  from dump_Inr [OF assms(1)] obtain st0 st' where
    i: "NumpyPickler_init m fs p = Inr st0" and
    s: "save (Pickler_write st0 [PROTO 2]) v = Inr st'" and
    fs': "fs' = close_file (fs_write (disk st') p (Pickle (written st' @ [STOP]))) p"
    by blast
  let ?st1 = "Pickler_write st0 [PROTO 2]"
  note st0 = init_Inr [OF i]
  have fr: "pframe ?st1 st'" using pframe_save(1) [of ?st1 v] s by simp
  have "pinv ?st1" using st0 by (simp add: pinv_def Pickler_write_def)
  then have "balance st' = balance ?st1"
    using pinv_balance_save(1) [OF assms(2), of ?st1] s by simp
  moreover have "balance ?st1 = 0"
    using st0 by (simp add: balance_def Pickler_write_def placeholders_def)
  ultimately have n: "npy_counter st' = int (placeholders (written st' @ [STOP]))"
    by (simp add: balance_def placeholders_def)
  have c0: "npy_counter ?st1 = 0" "p_filename ?st1 = p"
    using st0 by (simp_all add: Pickler_write_def)
  have main: "fs_read fs' p = Some (Pickle (written st' @ [STOP]))"
    by (simp add: fs' fs_read_def fs_write_def close_file_def update_conv')
  have side: "\<exists>a. fs_read fs' (npy_name p c) = Some (Npy a)"
    if "1 \<le> c" "c \<le> int (placeholders (written st' @ [STOP]))" for c
  proof -
    have "\<exists>a. fs_read (disk st') (npy_name p c) = Some (Npy a)"
      using fr that n c0 by (simp add: pframe_def)
    then show ?thesis
      using normslash_npy_name_neq [of p c]
      by (simp add: fs' fs_read_def fs_write_def close_file_def update_conv')
  qed
  have other: "map_of (files fs') q = map_of (files fs) q"
    if "q \<noteq> normslash p"
      "\<forall>c. 1 \<le> c \<and> c \<le> int (placeholders (written st' @ [STOP])) \<longrightarrow> q \<noteq> normslash (npy_name p c)"
    for q
  proof -
    have "map_of (files (disk st')) q = map_of (files (disk ?st1)) q"
      using fr that n c0 by (simp add: pframe_def)
    also have "\<dots> = map_of (files fs) q"
      using st0 that(1) by (simp add: Pickler_write_def fs_write_def update_conv')
    finally show ?thesis using that(1)
      by (simp add: fs' fs_write_def close_file_def update_conv')
  qed
  show ?thesis using main side other by blast
qed

theorem side_files_dense_witness:
  "\<exists>stream. fs_read ex_two_fs ''d/x.pkl'' = Some (Pickle stream) \<and>
           (\<forall>c. 1 \<le> c \<and> c \<le> int (placeholders stream) \<longrightarrow>
                (\<exists>a. fs_read ex_two_fs (npy_name ''d/x.pkl'' c) = Some (Npy a))) \<and>
           (\<forall>q. q \<noteq> normslash ''d/x.pkl'' \<and>
                (\<forall>c. 1 \<le> c \<and> c \<le> int (placeholders stream) \<longrightarrow> q \<noteq> normslash (npy_name ''d/x.pkl'' c))
                \<longrightarrow> map_of (files ex_two_fs) q = map_of (files ex_fs0) q)"
  using side_files_dense [OF ex_two_dump ex_two_plain] .

subsection \<open>C5: a failing np.save is not fatal\<close>

text \<open>
  C5. When \<open>np.save\<close> raises for an array node, \<open>NumpyPickler.save\<close> returns normally:
  the counter is back at the value it had, no file has been written, and the main
  stream has been extended by what the engine writes for the array itself, a
  back-reference if the array had been written before and its inline pickle otherwise.
  So a write pass over any graph that the engine can pickle returns its manifest,
  whatever \<open>np.save\<close> does.
\<close>

theorem encode_failure_nonfatal:
  "(\<not> can_save (np st) (npy_name (p_filename st) (npy_counter st + 1)) a \<longrightarrow>
      (\<exists>st'. save st (PArray i a) = Inr st' \<and>
         npy_counter st' = npy_counter st \<and>
         disk st' = disk st \<and>
         written st' = written st @
           (case memo_get st (PArray i a) of
              Some k \<Rightarrow> [GET k]
            | None \<Rightarrow> [RECONSTRUCT, PUT (length (memo st)), ARRSTATE a, BUILD]))) \<and>
   (picklable v \<and> open_wb fs p = Inr fs1 \<longrightarrow>
      (\<exists>manifest fs'. dump m fs v p = (Inr manifest, fs')))"
proof (intro conjI impI)
  assume f: "\<not> can_save (np st) (npy_name (p_filename st) (npy_counter st + 1)) a"
  show "\<exists>st'. save st (PArray i a) = Inr st' \<and>
         npy_counter st' = npy_counter st \<and>
         disk st' = disk st \<and>
         written st' = written st @
           (case memo_get st (PArray i a) of
              Some k \<Rightarrow> [GET k]
            | None \<Rightarrow> [RECONSTRUCT, PUT (length (memo st)), ARRSTATE a, BUILD])"
    by (cases "index_of i (memo st)")
       (simp_all add: save_array_fail [OF f] Pickler_save.simps memo_get_def
          Pickler_write_def memoize_def)
next
  assume "picklable v \<and> open_wb fs p = Inr fs1"
  then show "\<exists>manifest fs'. dump m fs v p = (Inr manifest, fs')"
    using dump_total by blast
qed

theorem encode_failure_nonfatal_witness:
  "(\<exists>st'. save ex_pickler_fail (PArray (Caller 1) ex_array) = Inr st' \<and>
         npy_counter st' = npy_counter ex_pickler_fail \<and>
         disk st' = disk ex_pickler_fail \<and>
         written st' = written ex_pickler_fail @
           (case memo_get ex_pickler_fail (PArray (Caller 1) ex_array) of
              Some k \<Rightarrow> [GET k]
            | None \<Rightarrow> [RECONSTRUCT, PUT (length (memo ex_pickler_fail)), ARRSTATE ex_array, BUILD])) \<and>
   (\<exists>manifest fs'. dump np_fail ex_fs0 ex_two ''d/x.pkl'' = (Inr manifest, fs'))"
proof -
  have a: "\<not> can_save (np ex_pickler_fail)
              (npy_name (p_filename ex_pickler_fail) (npy_counter ex_pickler_fail + 1)) ex_array"
    by (simp add: ex_pickler_fail_def np_fail_def)
  have b: "picklable ex_two \<and>
           open_wb ex_fs0 ''d/x.pkl'' =
             Inr ((fs_write ex_fs0 ''d/x.pkl'' (Pickle []))\<lparr>opened := opened ex_fs0 @ [''d/x.pkl'']\<rparr>)"
    by (simp add: ex_two_def open_wb_def ex_fs0_def slash_def)
  show ?thesis
    using encode_failure_nonfatal [where st = ex_pickler_fail and a = ex_array
        and i = "Caller 1" and v = ex_two and fs = ex_fs0 and p = "''d/x.pkl''" and m = np_fail
        and ?fs1.0 = "(fs_write ex_fs0 ''d/x.pkl'' (Pickle []))\<lparr>opened := opened ex_fs0 @ [''d/x.pkl'']\<rparr>"]
      a b
    by blast
qed

subsection \<open>C10: an array is externalized at every occurrence\<close>

lemma ex_shared_dump:
  "dump np_ok ex_fs0 ex_shared ''d/x.pkl'' =
     (Inr [''d/x.pkl'', ''d/x.pkl_01.npy'', ''d/x.pkl_02.npy''], ex_shared_fs)"
  by code_simp

lemma ex_shared_load:
  "fst (load ex_shared_fs ''d/x.pkl'' None) = Inr (ex_shared_heap, SRef 0)"
  by code_simp

lemma ex_inline_dump:
  "dump np_fail ex_fs0 ex_shared ''d/x.pkl'' =
     (Inr [''d/x.pkl'', ''d/x.pkl_01.npy'', ''d/x.pkl_01.npy''], ex_inline_fs)"
  by code_simp

lemma ex_inline_load:
  "fst (load ex_inline_fs ''d/x.pkl'' None) =
     Inr ([HList [SRef 1, SRef 1], HArray ex_array], SRef 0)"
  by code_simp

text \<open>
  C10. \<open>NumpyPickler.save\<close> externalizes an array before the base class consults the
  memo: in any state of a pass in which \<open>np.save\<close> succeeds for the next side file, also
  one in which the same array object has been written before, the counter goes up by
  one, the array is written to the side file of the new counter, and a new placeholder
  (\<open>NEWOBJ\<close>, with its own memo entry and the base name of that file) is written to
  the main stream, never a back-reference. In the example \<open>ex_shared\<close>, a list that holds
  the same array object twice, the pass writes two side files (\<open>ex_shared_dump\<close>) and
  loading gives two array objects at different addresses (\<open>ex_shared_load\<close>), where the
  inline pickle of the same list gives one (\<open>ex_inline_load\<close>).
\<close>

theorem array_externalized_at_every_occurrence:
  assumes "can_save (np st) (npy_name (p_filename st) (npy_counter st + 1)) a"
    and "pinv st"
  shows "\<exists>st'. save st (PArray i a) = Inr st' \<and>
           npy_counter st' = npy_counter st + 1 \<and>
           fs_read (disk st') (npy_name (p_filename st) (npy_counter st')) = Some (Npy a) \<and>
           memo st' = memo st @ [Pass (npy_counter st')] \<and>
           written st' = written st @
             [NEWOBJ ''NDArrayWrapper'', PUT (length (memo st)), EMPTY_DICT,
              BINSTRING ''filename'',
              BINSTRING (os_path_basename (npy_name (p_filename st) (npy_counter st'))),
              SETITEM, BUILD]"
proof -
  have "Pass (npy_counter st + 1) \<notin> set (memo st)"
    using assms(2) by (auto simp: pinv_def)
  from save_array_ok [OF assms(1) this, of i] show ?thesis
    by (simp add: fs_read_def fs_write_def update_conv')
qed

theorem array_externalized_at_every_occurrence_witness:
  "memo_get ex_pickler (PArray (Caller 1) ex_array) = Some 1 \<and>
   (\<exists>st'. save ex_pickler (PArray (Caller 1) ex_array) = Inr st' \<and>
           npy_counter st' = npy_counter ex_pickler + 1 \<and>
           fs_read (disk st') (npy_name (p_filename ex_pickler) (npy_counter st')) = Some (Npy ex_array) \<and>
           memo st' = memo ex_pickler @ [Pass (npy_counter st')] \<and>
           written st' = written ex_pickler @
             [NEWOBJ ''NDArrayWrapper'', PUT (length (memo ex_pickler)), EMPTY_DICT,
              BINSTRING ''filename'',
              BINSTRING (os_path_basename (npy_name (p_filename ex_pickler) (npy_counter st'))),
              SETITEM, BUILD])"
proof -
  have a: "can_save (np ex_pickler)
             (npy_name (p_filename ex_pickler) (npy_counter ex_pickler + 1)) ex_array"
    by (simp add: ex_pickler_def np_ok_def)
  have b: "pinv ex_pickler"
    by (simp add: pinv_def ex_pickler_def)
  have c: "memo_get ex_pickler (PArray (Caller 1) ex_array) = Some 1"
    by (simp add: memo_get_def ex_pickler_def)
  show ?thesis
    using array_externalized_at_every_occurrence [OF a b, of "Caller 1"] c by simp
qed

subsection \<open>C2: the manifest also lists the side files that could not be written\<close>

text \<open>
  C2. The claim fails on the code: \<open>save\<close> appends the name of the side file to
  \<open>_filenames\<close> before it calls \<open>np.save\<close>, and the handler of a failure takes the
  counter back but not the name. For the list \<open>ex_two\<close> of two arrays, the first of
  which cannot be saved, the manifest has two side-file entries although one array was
  externalized (one placeholder in the stream, one side file on disk), and the two
  entries are the same name.
\<close>

theorem manifest_lists_failed_attempt:
  "\<exists>manifest fs' stream.
     dump np_fail_first ex_fs0 ex_two ''d/x.pkl'' = (Inr manifest, fs') \<and>
     fs_read fs' ''d/x.pkl'' = Some (Pickle stream) \<and>
     placeholders stream = 1 \<and>
     map fst (files fs') = [''d/x.pkl'', ''d/x.pkl_01.npy''] \<and>
     manifest = [''d/x.pkl'', ''d/x.pkl_01.npy'', ''d/x.pkl_01.npy'']"
proof -
  have d: "dump np_fail_first ex_fs0 ex_two ''d/x.pkl'' =
     (Inr [''d/x.pkl'', ''d/x.pkl_01.npy'', ''d/x.pkl_01.npy''], ex_two_fs)"
    by code_simp
  have s: "fs_read ex_two_fs ''d/x.pkl'' = Some (Pickle ex_two_stream)"
    by code_simp
  have p: "placeholders ex_two_stream = 1"
    by code_simp
  have f: "map fst (files ex_two_fs) = [''d/x.pkl'', ''d/x.pkl_01.npy'']"
    by code_simp
  show ?thesis
    by (rule exI [of _ "[''d/x.pkl'', ''d/x.pkl_01.npy'', ''d/x.pkl_01.npy'']"],
        rule exI [of _ ex_two_fs], rule exI [of _ ex_two_stream])
       (simp add: d s p f)
qed

subsection \<open>C3: load does not close the main stream\<close>

lemma load_keeps_handle:
  assumes "NumpyUnpickler_init fs p mode = Inr u"
  shows "opened (snd (load fs p mode)) =
           opened fs @ [os_path_join (os_path_dirname p) (os_path_basename p)]"
  using assms
  by (auto simp: load_def NumpyUnpickler_init_def open_rb_def Let_def
        split: sum.splits option.splits)

text \<open>
  C3. The claim holds for \<open>dump\<close> (\<open>dump_releases_handle\<close>: on every exit path the handle
  that the constructor opened is closed again) and fails for \<open>load\<close>: its \<open>finally\<close> block
  closes \<open>unpickler.file\<close>, but the constructor stores the handle in the attribute
  \<open>file_handle\<close> and the unpickler has no attribute \<open>file\<close>, so the handle stays open
  whenever the file could be opened (\<open>load_keeps_handle\<close>). Here the stream written for
  \<open>ex_two\<close> is loaded successfully and its handle is still open afterwards.
\<close>

theorem load_leaves_handle_open:
  "\<exists>loaded fs'.
     load ex_two_fs ''d/x.pkl'' None = (Inr loaded, fs') \<and>
     opened ex_two_fs = [] \<and> opened fs' = [''d/x.pkl'']"
proof -
  have "load ex_two_fs ''d/x.pkl'' None =
     (Inr ([HList [SRef 1, SRef 4], HArray ex_array,
            HInst ''NDArrayWrapper'' [(SStr ''filename'', SStr ''x.pkl_01.npy'')],
            HDict [(SStr ''filename'', SStr ''x.pkl_01.npy'')], HArray ex_array2], SRef 0),
      ex_two_fs\<lparr>opened := [''d/x.pkl'']\<rparr>)"
    by code_simp
  moreover have "opened ex_two_fs = []" by (simp add: ex_two_fs_def)
  ultimately show ?thesis by simp
qed

subsection \<open>C1: what a read pass returns for what a write pass wrote\<close>

text \<open>
  C1. The claim does not hold for every object graph: an \<open>NDArrayWrapper\<close> instance in
  the caller's graph is pickled by the engine like any other object, and \<open>load_build\<close>
  replaces it by the array in the file it names. For \<open>ex_alias\<close>, a list of an array and
  a wrapper that names the array's side file, \<open>load\<close> returns a list of two arrays.
\<close>

theorem roundtrip_replaces_wrapper:
  "dump np_ok ex_fs0 ex_alias ''d/x.pkl'' = (Inr [''d/x.pkl'', ''d/x.pkl_01.npy''], ex_alias_fs) \<and>
   fst (load ex_alias_fs ''d/x.pkl'' None) = Inr (ex_alias_heap, SRef 0) \<and>
   \<not> represents ex_alias_heap (SRef 0) ex_alias"
proof -
  have "dump np_ok ex_fs0 ex_alias ''d/x.pkl'' =
          (Inr [''d/x.pkl'', ''d/x.pkl_01.npy''], ex_alias_fs)"
    by code_simp
  moreover have "fst (load ex_alias_fs ''d/x.pkl'' None) = Inr (ex_alias_heap, SRef 0)"
    by code_simp
  moreover have "\<not> represents ex_alias_heap (SRef 0) ex_alias"
    by code_simp
  ultimately show ?thesis by simp
qed

text \<open>
  C1, amended. For every object graph of the caller's objects that contains no
  \<open>NDArrayWrapper\<close> instance (and in which an identity stands for one object), with
  arrays at any depth: when \<open>dump\<close> returns, \<open>load\<close> of the main stream in copy mode
  returns a value equal to the graph, the arrays equal in element type, shape and
  elements, whether an array was externalized or pickled inline.
\<close>

theorem dump_load_roundtrip:
  assumes "dump m fs v p = (Inr manifest, fs1)"
    and "plain v" and "consistent (set (nodes v))"
  shows "\<exists>h r. fst (load fs1 p None) = Inr (h, r) \<and> represents h r v"
proof -
  from dump_pass [OF assms(1)] obtain stream where
    s: "fs_read fs1 p = Some (Pickle stream)" by blast
  show ?thesis
    by (rule roundtrip_core [OF assms s])
       (simp_all add: fs_read_normslash [OF open_file_npy_name])
qed

theorem dump_load_roundtrip_witness:
  "\<exists>h r. fst (load ex_two_fs ''d/x.pkl'' None) = Inr (h, r) \<and> represents h r ex_two"
proof -
  have c: "consistent (set (nodes ex_two))" by code_simp
  show ?thesis using dump_load_roundtrip [OF ex_two_dump ex_two_plain c] .
qed

subsection \<open>C8: a bundle can be moved to another directory\<close>

text \<open>
  C8. The placeholder holds the base name of its side file (\<open>save_array_ok\<close>,
  \<open>basename_noslash\<close>), and \<open>load\<close> joins it to the directory of the path it was given.
  So when the main stream and the side files that were written are found under their
  base names in a directory \<open>d\<close>, \<open>load\<close> of the main stream in \<open>d\<close> returns a value equal
  to the graph that was dumped, wherever the files were written.
\<close>

theorem relocated_bundle_loads:
  assumes "dump m fs v p = (Inr manifest, fs1)"
    and "plain v" and "consistent (set (nodes v))"
    and "fs_read fs1 p = Some (Pickle stream)"
    and "fs_read fs2 (os_path_join d (os_path_basename p)) = fs_read fs1 p"
    and "\<forall>c. 1 \<le> c \<and> c \<le> int (placeholders stream) \<longrightarrow>
           fs_read fs2 (os_path_join d (os_path_basename (npy_name p c))) =
           fs_read fs1 (npy_name p c)"
  shows "\<exists>h r. fst (load fs2 (os_path_join d (os_path_basename p)) None) = Inr (h, r) \<and>
               represents h r v"
proof (rule roundtrip_core [OF assms(1-5)], intro allI impI)
  fix c assume c: "1 \<le> c \<and> c \<le> int (placeholders stream)"
  have "normslash (os_path_join (os_path_dirname (os_path_join d (os_path_basename p)))
                     (os_path_basename (npy_name p c))) =
        normslash (os_path_join d (os_path_basename (npy_name p c)))"
    by (rule join_relocated) (rule basename_noslash)+
  from fs_read_normslash [OF this] assms(6) c
  show "fs_read fs2 (os_path_join (os_path_dirname (os_path_join d (os_path_basename p)))
                       (os_path_basename (npy_name p c))) =
        fs_read fs1 (npy_name p c)"
    by simp
qed

theorem relocated_bundle_loads_witness:
  "\<exists>h r. fst (load ex_two_moved (os_path_join ''e'' (os_path_basename ''d/x.pkl'')) None) = Inr (h, r) \<and>
          represents h r ex_two"
proof -
  have c: "consistent (set (nodes ex_two))" by code_simp
  have s: "fs_read ex_two_fs ''d/x.pkl'' = Some (Pickle ex_two_stream)" by code_simp
  have m: "fs_read ex_two_moved (os_path_join ''e'' (os_path_basename ''d/x.pkl'')) =
           fs_read ex_two_fs ''d/x.pkl''"
    by code_simp
  have n: "int (placeholders ex_two_stream) = 1" by code_simp
  have one: "fs_read ex_two_moved (os_path_join ''e'' (os_path_basename (npy_name ''d/x.pkl'' 1))) =
             fs_read ex_two_fs (npy_name ''d/x.pkl'' 1)"
    by code_simp
  have sd: "\<forall>c. 1 \<le> c \<and> c \<le> int (placeholders ex_two_stream) \<longrightarrow>
           fs_read ex_two_moved (os_path_join ''e'' (os_path_basename (npy_name ''d/x.pkl'' c))) =
           fs_read ex_two_fs (npy_name ''d/x.pkl'' c)"
  proof (intro allI impI)
    fix c :: int assume "1 \<le> c \<and> c \<le> int (placeholders ex_two_stream)"
    then have "c = 1" using n by simp
    then show "fs_read ex_two_moved (os_path_join ''e'' (os_path_basename (npy_name ''d/x.pkl'' c))) =
           fs_read ex_two_fs (npy_name ''d/x.pkl'' c)"
      using one by simp
  qed
  show ?thesis
    using relocated_bundle_loads [OF ex_two_dump ex_two_plain c s m sd] .
qed

subsection \<open>C6: a side file that cannot be read is fatal\<close>

text \<open>
  C6. After a write pass over a graph of the caller's objects, let the main stream be
  as it was written and let one of the side files that the pass wrote be missing or not
  an array file (whatever has become of the others). Then \<open>load\<close>, in any mode, raises:
  the result is an exception and no value, there being nothing in the placeholder to
  fall back on.
\<close>

theorem missing_side_file_fatal:
  assumes "dump m fs v p = (Inr manifest, fs1)" and "plain v"
    and "fs_read fs1 p = Some (Pickle stream)"
    and "fs_read fs2 p = fs_read fs1 p"
    and "1 \<le> c" and "c \<le> int (placeholders stream)"
    and "\<forall>a. fs_read fs2 (npy_name p c) \<noteq> Some (Npy a)"
  shows "\<exists>e. fst (load fs2 p mode) = Inl e"
proof -
  from dump_pass [OF assms(1)] obtain st1 st' where
    s: "save st1 v = Inr st'" and
    a: "written st1 = [PROTO 2]" "memo st1 = []" "npy_counter st1 = 0" "p_filename st1 = p" and
    pi: "pinv st1" and
    m: "fs_read fs1 p = Some (Pickle (PROTO 2 # emitted st1 st' @ [STOP]))"
    by blast
  let ?code = "emitted st1 st'"
  have st: "stream = PROTO 2 # ?code @ [STOP]" using assms(3) m by simp
  have n: "npy_counter st' = int (placeholders stream)"
    unfolding st by (rule pass_counter [OF s assms(2) pi a(1,3)])
  let ?u = "unpickler_for fs2 p mode stream"
  have ns: "STOP \<notin> set ?code"
    using pframe_Inr(1) [OF s] by (auto simp: pframe_def emitted_def)
  have l: "fst (load fs2 p mode) = run ?u stream"
    by (rule load_at) (simp add: assms(3,4))
  have r: "run ?u stream = (case exec ?u ?code of Inl e \<Rightarrow> Inl e | Inr u' \<Rightarrow> run u' [STOP])"
    unfolding st [symmetric] by (simp add: st run_append [OF ns])
  show ?thesis
  proof (cases "exec ?u ?code")
    case (Inl e)
    then show ?thesis using l r by simp
  next
    case (Inr u')
    have "\<forall>k. npy_counter st1 < k \<and> k \<le> npy_counter st' \<longrightarrow>
            (\<exists>b. side_file ?u st1 k = Some (Npy b))"
      by (rule exec_reads_side_files(1) [OF s assms(2) pi Inr])
    moreover have "npy_counter st1 < c" using assms(5) a(3) by simp
    moreover have "c \<le> npy_counter st'" using assms(6) n by simp
    ultimately obtain b where "side_file ?u st1 c = Some (Npy b)" by blast
    then have "fs_read fs2 (os_path_join (os_path_dirname p) (os_path_basename (npy_name p c))) =
               Some (Npy b)"
      by (simp add: side_file_def open_file_def unpickler_for_def a(4))
    then have "fs_read fs2 (npy_name p c) = Some (Npy b)"
      using fs_read_normslash [OF open_file_npy_name, of fs2 p c] by simp
    with assms(7) show ?thesis by simp
  qed
qed

theorem missing_side_file_fatal_witness:
  "\<exists>e. fst (load ex_two_lost ''d/x.pkl'' None) = Inl e"
proof -
  have s: "fs_read ex_two_fs ''d/x.pkl'' = Some (Pickle ex_two_stream)" by code_simp
  have m: "fs_read ex_two_lost ''d/x.pkl'' = fs_read ex_two_fs ''d/x.pkl''" by code_simp
  have n: "(1::int) \<le> int (placeholders ex_two_stream)" by code_simp
  have g: "fs_read ex_two_lost (npy_name ''d/x.pkl'' 1) = None" by code_simp
  then have g': "\<forall>a. fs_read ex_two_lost (npy_name ''d/x.pkl'' 1) \<noteq> Some (Npy a)" by simp
  show ?thesis
    using missing_side_file_fatal [OF ex_two_dump ex_two_plain s m _ n g', of None] by simp
qed

subsection \<open>C9: the temporary directory is removed on every exit path\<close>

text \<open>
  C9. Once \<open>dumpz\<close> or \<open>loadz\<close> has created its temporary directory, nothing is left
  of the directory when the function returns or raises, whatever happens in between:
  the directory is not there and no file or directory lies within it. In particular an
  exception of the staging \<open>dump\<close>, or of the extraction, reaches the caller with the
  directory removed. (Before the directory is created, a failure to open the archive or
  of \<open>mkdtemp\<close> leaves no directory behind: \<open>dumpz_no_temp\<close>, \<open>loadz_no_temp\<close>.)
\<close>

theorem temp_dir_removed:
  "(ZipFile_w fs filename = Inr fs1 \<and>
    mkdtemp fs1 name ''joblib-'' (os_path_dirname filename) = Inr (tmp, fs2) \<longrightarrow>
      no_trace (snd (dumpz m z name fs v filename)) tmp \<and>
      (\<forall>e. fst (dump m fs2 v (os_path_join tmp ''joblib_dump.pkl'')) = Inl e \<longrightarrow>
           fst (dumpz m z name fs v filename) = Inl e)) \<and>
   (ZipFile_r gs gname = Inr gs1 \<and>
    mkdtemp gs1 name' ''joblib-'' (os_path_dirname gname) = Inr (tmp', gs2) \<longrightarrow>
      no_trace (snd (loadz z' name' gs gname)) tmp' \<and>
      (\<forall>e gs3. extractall z' gs2 gname tmp' = Inl (e, gs3) \<longrightarrow>
           fst (loadz z' name' gs gname) = Inl e))"
proof (intro conjI impI allI; (elim conjE)?)
  assume a: "ZipFile_w fs filename = Inr fs1"
    "mkdtemp fs1 name ''joblib-'' (os_path_dirname filename) = Inr (tmp, fs2)"
  show "no_trace (snd (dumpz m z name fs v filename)) tmp"
    using a by (auto simp: dumpz_def split: sum.splits prod.splits)
next
  fix e
  assume a: "ZipFile_w fs filename = Inr fs1"
    "mkdtemp fs1 name ''joblib-'' (os_path_dirname filename) = Inr (tmp, fs2)"
    "fst (dump m fs2 v (os_path_join tmp ''joblib_dump.pkl'')) = Inl e"
  show "fst (dumpz m z name fs v filename) = Inl e"
    using a by (auto simp: dumpz_def split: sum.splits prod.splits)
next
  assume a: "ZipFile_r gs gname = Inr gs1"
    "mkdtemp gs1 name' ''joblib-'' (os_path_dirname gname) = Inr (tmp', gs2)"
  show "no_trace (snd (loadz z' name' gs gname)) tmp'"
    using a by (auto simp: loadz_def split: sum.splits prod.splits)
next
  fix e gs3
  assume a: "ZipFile_r gs gname = Inr gs1"
    "mkdtemp gs1 name' ''joblib-'' (os_path_dirname gname) = Inr (tmp', gs2)"
    "extractall z' gs2 gname tmp' = Inl (e, gs3)"
  show "fst (loadz z' name' gs gname) = Inl e"
    using a by (auto simp: loadz_def split: sum.splits prod.splits)
qed

theorem temp_dir_removed_witness:
  "fst (dumpz np_ok zip_ok ''abc'' ex_fs0 ex_bad ''d/x.zip'') = Inl PicklingError \<and>
   no_trace (snd (dumpz np_ok zip_ok ''abc'' ex_fs0 ex_bad ''d/x.zip'')) ''d/joblib-abc'' \<and>
   fst (loadz zip_no_extract ''xyz'' ex_arch ''d/x.zip'') = Inl (IOError ''dump_file/x.pkl_01.npy'') \<and>
   no_trace (snd (loadz zip_no_extract ''xyz'' ex_arch ''d/x.zip'')) ''d/joblib-xyz''"
proof -
  have w: "ZipFile_w ex_fs0 ''d/x.zip'' = Inr ex_zip1" by code_simp
  have t: "mkdtemp ex_zip1 ''abc'' ''joblib-'' (os_path_dirname ''d/x.zip'') =
             Inr (''d/joblib-abc'', ex_zip2)"
    by code_simp
  have d: "fst (dump np_ok ex_zip2 ex_bad (os_path_join ''d/joblib-abc'' ''joblib_dump.pkl'')) =
             Inl PicklingError"
    by code_simp
  have r: "ZipFile_r ex_arch ''d/x.zip'' = Inr ex_arch1" by code_simp
  have t': "mkdtemp ex_arch1 ''xyz'' ''joblib-'' (os_path_dirname ''d/x.zip'') =
              Inr (''d/joblib-xyz'', ex_arch2)"
    by code_simp
  have "case extractall zip_no_extract ex_arch2 ''d/x.zip'' ''d/joblib-xyz'' of
          Inl (e, gs3) \<Rightarrow> e = IOError ''dump_file/x.pkl_01.npy''
        | Inr gs3 \<Rightarrow> False"
    by code_simp
  then have x: "\<exists>gs3. extractall zip_no_extract ex_arch2 ''d/x.zip'' ''d/joblib-xyz'' =
             Inl (IOError ''dump_file/x.pkl_01.npy'', gs3)"
    by (auto split: sum.splits prod.splits)
  show ?thesis
    using temp_dir_removed [where fs = ex_fs0 and filename = "''d/x.zip''" and ?fs1.0 = ex_zip1
        and name = "''abc''" and tmp = "''d/joblib-abc''" and ?fs2.0 = ex_zip2
        and m = np_ok and z = zip_ok and v = ex_bad
        and gs = ex_arch and gname = "''d/x.zip''" and ?gs1.0 = ex_arch1
        and name' = "''xyz''" and tmp' = "''d/joblib-xyz''" and ?gs2.0 = ex_arch2
        and z' = zip_no_extract]
      w t d r t' x
    by blast
qed

end
